(* ===== verification/Prelude.thy ===== *)
theory Prelude
  imports Main "HOL-Library.Word" "HOL-Library.Multiset"
begin

unbundle bit_operations_syntax

text \<open>
  Shared vocabulary of the development: the C integer types at the widths of the x86-64 ABI the
  modules are built for, errno values, the ways a kernel or user program can go wrong, the ledger
  of resources a module holds, and byte buffers with the read and overwrite operations behind
  \<^verbatim>\<open>memcpy\<close>, \<^verbatim>\<open>copy_to_user\<close> and \<^verbatim>\<open>sprintf\<close>. The lemmas on buffers are collected in \<open>buf_simps\<close>
  and those on the ledger in \<open>ledger_simps\<close>.
\<close>

named_theorems buf_simps
named_theorems ledger_simps

section \<open>C integers, errno values, page geometry\<close>

type_synonym u8 = "8 word"
type_synonym u16 = "16 word"
type_synonym u32 = "32 word"
type_synonym u64 = "64 word"

text \<open>Error numbers and page geometry of the x86-64 kernel ABI (the page geometry is the one that
  \<^verbatim>\<open>src/code/v2p_addr/readme.txt\<close> records: \<^verbatim>\<open>PAGE_SHIFT = 12\<close>).\<close>

abbreviation ENXIO :: int where "ENXIO \<equiv> 6"
abbreviation ENOMEM :: int where "ENOMEM \<equiv> 12"
abbreviation EFAULT :: int where "EFAULT \<equiv> 14"
abbreviation EINVAL :: int where "EINVAL \<equiv> 22"
abbreviation ENOTTY :: int where "ENOTTY \<equiv> 25"
abbreviation PAGE_SHIFT :: nat where "PAGE_SHIFT \<equiv> 12"
abbreviation PAGE_SIZE :: "'a::numeral" where "PAGE_SIZE \<equiv> 4096"

text \<open>Conversions between the widths, for values that fit.\<close>

lemma unat_ucast_mod: "unat (ucast (w :: 'a::len word) :: 'b::len word) = unat w mod 2 ^ LENGTH('b)"
  by (simp add: unsigned_ucast_eq take_bit_eq_mod)

lemma uint_less_of_unat: "unat (w :: 'a::len word) < 2 ^ k \<Longrightarrow> uint w < 2 ^ k"
  by (metis of_nat_less_iff of_nat_numeral of_nat_power uint_nat)

lemma sint_eq_uint_small:
  assumes "unat (w :: 'a::len word) < 2 ^ (LENGTH('a) - 1)"
  shows "sint w = uint w"
proof -
  have "- (2 ^ (LENGTH('a) - 1)) \<le> (0 :: int)" by simp
  also have "0 \<le> uint w" by simp
  finally show ?thesis
    using uint_less_of_unat [OF assms] by (simp add: sint_uint signed_take_bit_int_eq_self_iff)
qed

lemma sint_ucast_u32: "unat (w :: u64) < 2 ^ 31 \<Longrightarrow> sint (ucast w :: u32) = uint w"
  using uint_less_of_unat [of w 31]
  by (subst sint_eq_uint_small) (simp_all add: unat_ucast_mod unsigned_ucast_eq take_bit_int_eq_self)

lemma scast_ucast_u32: "unat (w :: u64) < 2 ^ 31 \<Longrightarrow> (scast (ucast w :: u32) :: u64) = w"
  by (metis sint_ucast_u32 of_int_sint word_of_int_uint)

lemma unat_uminus_u64:
  assumes "w \<noteq> (0 :: u64)"
  shows "unat (- w) = 2 ^ 64 - unat w"
proof -
  have "unat (- w) + unat w = 2 ^ 64"
  proof -
    have pos: "0 < unat w" using assms by (simp add: unat_gt_0)
    have pos': "0 < unat (- w)" using assms by (simp add: unat_gt_0)
    have "(unat (- w) + unat w) mod 2 ^ 64 = 0"
      using unat_word_ariths(1) [of "- w" w] by simp
    moreover have "unat (- w) < 2 ^ 64" "unat w < 2 ^ 64" using unsigned_less [of "- w", where ?'a = nat] unsigned_less [of w, where ?'a = nat] by simp_all
    ultimately show ?thesis using pos pos' by (auto simp: mod_eq_0_iff_dvd elim!: dvdE)
  qed
  then show ?thesis by simp
qed
lemma unat_uminus_of_nat:
  assumes "0 < d" and "d < 2 ^ 64"
  shows "unat (- (of_nat d :: u64)) = 2 ^ 64 - d"
proof -
  have "unat (of_nat d :: u64) = d" using assms by (simp add: unat_of_nat)
  moreover from this have "(of_nat d :: u64) \<noteq> 0" using assms(1) by (metis less_irrefl unat_0)
  ultimately show ?thesis by (simp add: unat_uminus_u64)
qed

lemma unat_scast_small:
  assumes "unat (w :: 'a::len word) < 2 ^ (LENGTH('a) - 1)" and "LENGTH('a) \<le> LENGTH('b::len)"
  shows "unat (scast w :: 'b word) = unat w"
proof -
  have "scast w = (of_int (uint w) :: 'b word)"
    using sint_eq_uint_small [OF assms(1)] by (metis of_int_sint)
  then have "scast w = (ucast w :: 'b word)" by simp
  moreover have "unat w < 2 ^ LENGTH('b)"
    using assms by (intro order.strict_trans2 [OF assms(1)] power_increasing) auto
  ultimately show ?thesis by (simp add: unat_ucast_mod)
qed

section \<open>Failures and the resource ledger\<close>

text \<open>What a function does instead of returning: it follows a null pointer, it touches memory
  outside the object it was given, it uses an object that was released, it releases something it
  does not hold, or it never returns.\<close>

datatype crash = Null_deref | Bad_access | Use_after_free | Bad_release | Diverges

text \<open>A loop that may run forever is a partial function with an optional result; \<open>None\<close> is "does not
  return".\<close>

definition looping :: "(crash + 'a) option \<Rightarrow> crash + 'a" where
  "looping r = (case r of None \<Rightarrow> Inl Diverges | Some x \<Rightarrow> x)"

text \<open>One constructor for each pair of kernel calls that acquire and release something.\<close>

datatype resource =
    Chrdev int string         \<comment> \<open>\<^verbatim>\<open>register_chrdev\<close> / \<^verbatim>\<open>unregister_chrdev\<close>\<close>
  | Chrdev_region u32 int     \<comment> \<open>\<^verbatim>\<open>alloc_chrdev_region\<close> / \<^verbatim>\<open>unregister_chrdev_region\<close>\<close>
  | Cdev u64                  \<comment> \<open>\<^verbatim>\<open>cdev_alloc\<close> / \<^verbatim>\<open>cdev_del\<close>\<close>
  | Miscdev string            \<comment> \<open>\<^verbatim>\<open>misc_register\<close> / \<^verbatim>\<open>misc_deregister\<close>\<close>
  | Vmalloc u64               \<comment> \<open>\<^verbatim>\<open>vmalloc\<close> / \<^verbatim>\<open>vfree\<close>\<close>
  | Kmem u64                  \<comment> \<open>\<^verbatim>\<open>kmalloc\<close>, \<^verbatim>\<open>kzalloc\<close> / \<^verbatim>\<open>kfree\<close>\<close>
  | Page u64                  \<comment> \<open>\<^verbatim>\<open>__get_free_page\<close> / \<^verbatim>\<open>free_page\<close>\<close>
  | Kmap u64                  \<comment> \<open>\<^verbatim>\<open>kmap\<close> / \<^verbatim>\<open>kunmap\<close>\<close>
  | Vmap u64                  \<comment> \<open>\<^verbatim>\<open>vmap\<close> / \<^verbatim>\<open>vunmap\<close>\<close>
  | Blkdev int string         \<comment> \<open>\<^verbatim>\<open>register_blkdev\<close> / \<^verbatim>\<open>unregister_blkdev\<close>\<close>
  | Queue u64                 \<comment> \<open>\<^verbatim>\<open>blk_init_queue\<close> / \<^verbatim>\<open>blk_cleanup_queue\<close>\<close>
  | Disk u64                  \<comment> \<open>\<^verbatim>\<open>alloc_disk\<close> / \<^verbatim>\<open>put_disk\<close>\<close>
  | Disk_added u64            \<comment> \<open>\<^verbatim>\<open>add_disk\<close> / \<^verbatim>\<open>del_gendisk\<close>\<close>
  | Irq int u64               \<comment> \<open>\<^verbatim>\<open>request_irq\<close> / \<^verbatim>\<open>free_irq\<close>\<close>
  | Timer string              \<comment> \<open>\<^verbatim>\<open>hrtimer_start_range_ns\<close> / \<^verbatim>\<open>hrtimer_cancel\<close>\<close>
  | Kthread u64               \<comment> \<open>\<^verbatim>\<open>kthread_create\<close> / \<^verbatim>\<open>kthread_stop\<close>\<close>

text \<open>The part of every module's state that records what it holds, as a list with repetitions.\<close>

record kernel =
  held :: "resource list"

definition acquire :: "resource \<Rightarrow> 'a kernel_scheme \<Rightarrow> 'a kernel_scheme" where
  "acquire r s = s\<lparr>held := r # held s\<rparr>"

definition release :: "resource \<Rightarrow> 'a kernel_scheme \<Rightarrow> crash + 'a kernel_scheme" where
  "release r s = (if r \<in> set (held s) then Inr (s\<lparr>held := remove1 r (held s)\<rparr>) else Inl Bad_release)"

text \<open>Sequencing of steps that may crash.\<close>

definition andThen :: "'e + 'a \<Rightarrow> ('a \<Rightarrow> 'e + 'b) \<Rightarrow> 'e + 'b" where
  "andThen m f = (case m of Inl e \<Rightarrow> Inl e | Inr x \<Rightarrow> f x)"

text \<open>\<^verbatim>\<open>vfree\<close>, \<^verbatim>\<open>kfree\<close> and \<^verbatim>\<open>free_page\<close> ignore a null pointer.\<close>

definition release_ptr :: "(u64 \<Rightarrow> resource) \<Rightarrow> u64 \<Rightarrow> 'a kernel_scheme \<Rightarrow> crash + 'a kernel_scheme" where
  "release_ptr R p s = (if p = 0 then Inr s else release (R p) s)"

lemma andThen_simps [simp]:
  "andThen (Inl e) f = Inl e"
  "andThen (Inr x) f = f x"
  by (simp_all add: andThen_def)

lemma looping_Some [simp]: "looping (Some x) = x"
  by (simp add: looping_def)

lemma andThen_eq_Inr: "andThen m f = Inr y \<longleftrightarrow> (\<exists>x. m = Inr x \<and> f x = Inr y)"
  by (cases m) simp_all

lemma held_acquire [ledger_simps]: "held (acquire r s) = r # held s"
  by (simp add: acquire_def)

lemma release_held [ledger_simps]:
  "r \<in> set (held s) \<Longrightarrow> release r s = Inr (s\<lparr>held := remove1 r (held s)\<rparr>)"
  by (simp add: release_def)

lemma release_not_held [ledger_simps]: "r \<notin> set (held s) \<Longrightarrow> release r s = Inl Bad_release"
  by (simp add: release_def)

lemma release_acquire [ledger_simps]: "release r (acquire r s) = Inr s"
  by (simp add: release_def acquire_def)

lemma mset_held_release:
  assumes "release r s = Inr s'"
  shows "mset (held s) = add_mset r (mset (held s'))"
  using assms by (auto simp: release_def split: if_splits)

lemma release_mset:
  assumes "mset (held s) = add_mset r M"
  shows "\<exists>s'. release r s = Inr s' \<and> mset (held s') = M"
proof -
  have "r \<in> set (held s)" using assms by (metis set_mset_mset union_single_eq_member)
  then show ?thesis using assms by (simp add: release_def)
qed

lemma release_ptr_null [ledger_simps]: "release_ptr R 0 s = Inr s"
  by (simp add: release_ptr_def)

lemma release_ptr_nonnull [ledger_simps]: "p \<noteq> 0 \<Longrightarrow> release_ptr R p s = release (R p) s"
  by (simp add: release_ptr_def)

section \<open>Byte buffers\<close>

text \<open>Reading and overwriting a run of a buffer. \<open>buf_put b off xs\<close> is what a \<^verbatim>\<open>memcpy\<close> of \<open>xs\<close> to
  offset \<open>off\<close> leaves in \<open>b\<close>, for a copy that stays inside it.\<close>

definition buf_get :: "nat \<Rightarrow> nat \<Rightarrow> 'a list \<Rightarrow> 'a list" where
  "buf_get off n b = take n (drop off b)"

definition buf_put :: "'a list \<Rightarrow> nat \<Rightarrow> 'a list \<Rightarrow> 'a list" where
  "buf_put b off xs = take off b @ xs @ drop (off + length xs) b"

text \<open>Characters are bytes; a C string literal carries its terminating zero, and the string a
  buffer holds ends at the first zero byte.\<close>

definition byte_of :: "char \<Rightarrow> u8" where
  "byte_of c = of_nat (of_char c)"

definition char_of_byte :: "u8 \<Rightarrow> char" where
  "char_of_byte b = char_of (unat b)"

definition cstr :: "string \<Rightarrow> u8 list" where
  "cstr s = map byte_of s @ [0]"

definition string_at :: "u8 list \<Rightarrow> string" where
  "string_at b = map char_of_byte (takeWhile (\<lambda>x. x \<noteq> 0) b)"

lemma length_buf_get [buf_simps]: "off + n \<le> length b \<Longrightarrow> length (buf_get off n b) = n"
  by (simp add: buf_get_def)

lemma length_buf_put [buf_simps]:
  "off + length xs \<le> length b \<Longrightarrow> length (buf_put b off xs) = length b"
  by (simp add: buf_put_def)

lemma buf_get_put_same [buf_simps]:
  "off + length xs \<le> length b \<Longrightarrow> n = length xs \<Longrightarrow> buf_get off n (buf_put b off xs) = xs"
  by (simp add: buf_get_def buf_put_def)

lemma nth_buf_put:
  assumes "off + length xs \<le> length b" and "i < length b"
  shows "buf_put b off xs ! i = (if off \<le> i \<and> i < off + length xs then xs ! (i - off) else b ! i)"
  using assms by (auto simp: buf_put_def nth_append min_def)

lemma nth_buf_get:
  "off + n \<le> length b \<Longrightarrow> i < n \<Longrightarrow> buf_get off n b ! i = b ! (off + i)"
  by (simp add: buf_get_def)

lemma buf_get_put_disjoint [buf_simps]:
  assumes "off + length xs \<le> length b" and "off' + n \<le> length b"
    and "off' + n \<le> off \<or> off + length xs \<le> off'"
  shows "buf_get off' n (buf_put b off xs) = buf_get off' n b"
proof (rule nth_equalityI)
  show "length (buf_get off' n (buf_put b off xs)) = length (buf_get off' n b)"
    using assms by (simp add: buf_simps)
next
  fix i
  assume "i < length (buf_get off' n (buf_put b off xs))"
  then have "i < n" using assms by (simp add: buf_simps)
  then show "buf_get off' n (buf_put b off xs) ! i = buf_get off' n b ! i"
    using assms by (simp add: nth_buf_get buf_simps nth_buf_put) arith
qed

lemma length_cstr [buf_simps]: "length (cstr s) = Suc (length s)"
  by (simp add: cstr_def)

lemma unat_byte_of: "unat (byte_of c) = of_char c"
  by (simp add: byte_of_def unat_of_nat of_char_mod_256)

lemma char_of_byte_of [simp]: "char_of_byte (byte_of c) = c"
  by (simp add: char_of_byte_def unat_byte_of)

lemma byte_of_eq_0 [simp]: "byte_of c = 0 \<longleftrightarrow> c = CHR 0x00"
proof
  assume "byte_of c = 0"
  then have "of_char c = (0 :: nat)" by (metis unat_0 unat_byte_of)
  then have "of_char c = (of_char (CHR 0x00) :: nat)" by simp
  then show "c = CHR 0x00" by (simp only: of_char_eq_iff)
next
  show "c = CHR 0x00 \<Longrightarrow> byte_of c = 0" by (simp add: byte_of_def)
qed

lemma string_at_cstr [buf_simps]:
  "CHR 0x00 \<notin> set s \<Longrightarrow> string_at (cstr s @ rest) = s"
  by (induction s) (auto simp: string_at_def cstr_def)

lemma string_at_take:
  assumes "0 \<in> set (take n b)"
  shows "string_at (take n b) = string_at b"
proof -
  have "takeWhile (\<lambda>x. x \<noteq> 0) (take n b @ drop n b) = takeWhile (\<lambda>x. x \<noteq> 0) (take n b)"
    using assms by (intro takeWhile_append1) auto
  then show ?thesis by (simp add: string_at_def)
qed

end
