(* ===== verification/Lifecycle.thy ===== *)
theory Lifecycle
  imports Prelude
begin

text \<open>
  The contract every kernel module of the repository is written against: \<^verbatim>\<open>module_init\<close> either
  returns 0 with the module running or returns an error and leaves nothing behind, the entry points
  the kernel calls while the module runs keep it unloadable, and \<^verbatim>\<open>module_exit\<close> gives back exactly
  what the module holds. A module that meets it can be loaded and unloaded any number of times
  without a leak or a double release, which is proved here once for all of them.
\<close>

section \<open>A module's life as a relation\<close>

text \<open>One life of a module: a successful \<^verbatim>\<open>insmod\<close> in environment \<open>e\<close> (the answers of the kernel calls
  that \<open>init\<close> makes), any number of the module's own steps, and \<^verbatim>\<open>rmmod\<close>; or an \<^verbatim>\<open>insmod\<close> that
  fails, after which the kernel discards the module.\<close>

inductive lifetime ::
  "('e \<Rightarrow> 's \<Rightarrow> bool) \<Rightarrow> ('e \<Rightarrow> 's \<Rightarrow> crash + int \<times> 's) \<Rightarrow> ('s \<Rightarrow> 's \<Rightarrow> bool) \<Rightarrow> ('s \<Rightarrow> crash + 's) \<Rightarrow>
    's \<Rightarrow> 's \<Rightarrow> bool"
  for env init step exit where
  life_ok: "env e s \<Longrightarrow> init e s = Inr (0, s1) \<Longrightarrow> step\<^sup>*\<^sup>* s1 s2 \<Longrightarrow> exit s2 = Inr s3 \<Longrightarrow>
     lifetime env init step exit s s3"
| life_failed: "env e s \<Longrightarrow> init e s = Inr (r, s1) \<Longrightarrow> r \<noteq> 0 \<Longrightarrow> lifetime env init step exit s s1"

text \<open>A module that keeps the ledger over the loads \<open>env\<close> admits: each of them returns; one that fails has given
  everything back; after one that succeeds and any steps of the module, unloading returns, without
  a release of anything that is not held, and has given everything back. So does any sequence of lives.\<close>

definition balanced_module ::
  "('s \<Rightarrow> resource multiset) \<Rightarrow> ('e \<Rightarrow> 's \<Rightarrow> bool) \<Rightarrow> ('e \<Rightarrow> 's \<Rightarrow> crash + int \<times> 's) \<Rightarrow>
    ('s \<Rightarrow> 's \<Rightarrow> bool) \<Rightarrow> ('s \<Rightarrow> crash + 's) \<Rightarrow> bool" where
  "balanced_module ledger env init step exit \<longleftrightarrow>
     (\<forall>e s. env e s \<longrightarrow> (\<exists>r s1. init e s = Inr (r, s1)
        \<and> (r \<noteq> 0 \<longrightarrow> ledger s1 = ledger s)
        \<and> (r = 0 \<longrightarrow> (\<forall>s2. step\<^sup>*\<^sup>* s1 s2 \<longrightarrow> (\<exists>s3. exit s2 = Inr s3 \<and> ledger s3 = ledger s)))))
     \<and> (\<forall>s s'. (lifetime env init step exit)\<^sup>*\<^sup>* s s' \<longrightarrow> ledger s' = ledger s)"

section \<open>The contract\<close>

locale kmodule =
  fixes ledger :: "'s \<Rightarrow> resource multiset"
    and env :: "'e \<Rightarrow> 's \<Rightarrow> bool"
    and init :: "'e \<Rightarrow> 's \<Rightarrow> crash + int \<times> 's"
    and step :: "'s \<Rightarrow> 's \<Rightarrow> bool"
    and exit :: "'s \<Rightarrow> crash + 's"
    and loaded :: "resource multiset \<Rightarrow> 's \<Rightarrow> bool"
  assumes init_returns: "env e s \<Longrightarrow> \<exists>r s'. init e s = Inr (r, s')"
    and init_failed: "env e s \<Longrightarrow> init e s = Inr (r, s') \<Longrightarrow> r \<noteq> 0 \<Longrightarrow> ledger s' = ledger s"
    and init_loaded: "env e s \<Longrightarrow> init e s = Inr (0, s') \<Longrightarrow> loaded (ledger s) s'"
    and step_loaded: "loaded base s \<Longrightarrow> step s s' \<Longrightarrow> loaded base s'"
    and exit_releases: "loaded base s \<Longrightarrow> \<exists>s'. exit s = Inr s' \<and> ledger s' = base"
begin

lemma steps_loaded: "step\<^sup>*\<^sup>* s s' \<Longrightarrow> loaded base s \<Longrightarrow> loaded base s'"
  by (induction rule: rtranclp_induct) (auto intro: step_loaded)

text \<open>A running module can always be unloaded: its exit function returns.\<close>

lemma unloadable:
  assumes "env e s" and "init e s = Inr (0, s1)" and "step\<^sup>*\<^sup>* s1 s2"
  shows "\<exists>s3. exit s2 = Inr s3 \<and> ledger s3 = ledger s"
proof -
  have "loaded (ledger s) s2"
    using init_loaded [OF assms(1,2)] steps_loaded [OF assms(3)] by blast
  then show ?thesis by (rule exit_releases)
qed

lemma lifetime_exists:
  assumes "env e s" and "init e s = Inr (0, s1)"
  shows "\<exists>s3. lifetime env init step exit s s3"
proof -
  obtain s3 where "exit s1 = Inr s3" using unloadable [OF assms rtranclp.rtrancl_refl] by blast
  then have "lifetime env init step exit s s3"
    using life_ok [of env e s init s1 step s1 exit s3] assms by simp
  then show ?thesis by blast
qed

lemma lifetime_balanced: "lifetime env init step exit s s' \<Longrightarrow> ledger s' = ledger s"
proof (induction rule: lifetime.cases)
  case (life_ok e s s1 s2 s3)
  then show ?case using unloadable by fastforce
next
  case (life_failed e s r s1)
  then show ?case by (simp add: init_failed)
qed

text \<open>Any number of loads and unloads leaves the ledger as it was.\<close>

lemma lifetimes_balanced: "(lifetime env init step exit)\<^sup>*\<^sup>* s s' \<Longrightarrow> ledger s' = ledger s"
  by (induction rule: rtranclp_induct) (auto dest: lifetime_balanced)

lemma module_balanced: "balanced_module ledger env init step exit"
  unfolding balanced_module_def using init_returns init_failed unloadable lifetimes_balanced by metis

end

lemma balanced_lifetime:
  "balanced_module ledger env init step exit \<Longrightarrow> lifetime env init step exit s s' \<Longrightarrow> ledger s' = ledger s"
  unfolding balanced_module_def by (meson r_into_rtranclp)

end
