(* ===== verification/Dram.thy ===== *)
theory Dram
  imports Lifecycle
begin

text \<open>
  \<^verbatim>\<open>src/code/dram/dram.c\<close>: the read-only character device over physical memory that \<^verbatim>\<open>fileview\<close> reads
  through. \<^verbatim>\<open>loff_t\<close> and \<^verbatim>\<open>unsigned long\<close> are 64-bit words compared the way C compares them (signed
  against zero, unsigned against \<^verbatim>\<open>dram_size\<close>); \<^verbatim>\<open>page_number\<close>, \<^verbatim>\<open>page_indent\<close> and \<^verbatim>\<open>more\<close> are \<^verbatim>\<open>int\<close>,
  so values are cut to 32 bits on the way in and sign-extended on the way out. Physical memory
  (\<open>phys\<close>) and the number of bytes \<^verbatim>\<open>copy_to_user\<close> fails to copy are parameters.
\<close>

section \<open>The driver\<close>

definition modname :: string where
  "modname = ''dram''"

definition my_major :: int where
  "my_major = 85"

record dram_state = kernel +
  dram_size :: u64

definition dram_init :: "(int \<Rightarrow> string \<Rightarrow> int) \<Rightarrow> dram_state \<Rightarrow> crash + int \<times> dram_state" where
  "dram_init register_chrdev s =
     (let s1 = s\<lparr>dram_size := 0x25f5ffff8\<rparr>; ret = register_chrdev my_major modname
      in if ret = 0 then Inr (0, acquire (Chrdev my_major modname) s1) else Inr (ret, s1))"

definition dram_exit :: "dram_state \<Rightarrow> crash + dram_state" where
  "dram_exit s = release (Chrdev my_major modname) s"

text \<open>The result is the return value, the bytes that reached the user's buffer, the new \<open>*pos\<close> and the
  new state. Reading past the end of the page that \<^verbatim>\<open>kmap\<close> mapped is \<open>Bad_access\<close>.\<close>

definition my_read ::
  "(u64 \<Rightarrow> u8) \<Rightarrow> (u8 list \<Rightarrow> nat) \<Rightarrow> u64 \<Rightarrow> u64 \<Rightarrow> dram_state \<Rightarrow>
     crash + int \<times> u8 list \<times> u64 \<times> dram_state" where
  "my_read phys copy_to_user cnt pos s =
     (if pos \<ge> dram_size s then Inr (0, [], pos, s)
      else
        let page_number = ucast (pos div PAGE_SIZE) :: u32;
            page_indent = ucast (pos mod PAGE_SIZE) :: u32;
            pp = scast page_number :: u64;
            s1 = acquire (Kmap pp) s;
            cnt1 = (if (scast page_indent :: u64) + cnt > PAGE_SIZE
                      then PAGE_SIZE - scast page_indent else cnt)
        in if unat page_indent + unat cnt1 > PAGE_SIZE then Inl Bad_access
           else
             let data = map (\<lambda>i. phys (pp * PAGE_SIZE + scast page_indent + of_nat i)) [0..<unat cnt1];
                 left = copy_to_user data;
                 more = word_of_nat left :: u32;
                 copied = take (length data - left) data
             in andThen (release (Kmap pp) s1) (\<lambda>s2.
                  if more \<noteq> 0 then Inr (- EFAULT, copied, pos, s2)
                  else Inr (sint cnt1, copied, pos + cnt1, s2)))"

definition my_llseek :: "u64 \<Rightarrow> int \<Rightarrow> u64 \<Rightarrow> dram_state \<Rightarrow> int \<times> u64" where
  "my_llseek offset whence f_pos s =
     (let newpos = (if whence = 0 then offset
                    else if whence = 1 then f_pos + offset
                    else if whence = 2 then dram_size s + offset
                    else - 1)
      in if sint newpos < 0 \<or> newpos > dram_size s then (- EINVAL, f_pos)
         else (sint newpos, newpos))"

text \<open>The steps the kernel can take with the loaded driver: a read at any position. (A seek changes
  the open file only.)\<close>

inductive dram_step :: "dram_state \<Rightarrow> dram_state \<Rightarrow> bool" where
  step_read: "my_read phys copy_to_user cnt pos s = Inr (r, data, pos', s') \<Longrightarrow> dram_step s s'"

definition dram_loaded :: "resource multiset \<Rightarrow> dram_state \<Rightarrow> bool" where
  "dram_loaded base s \<longleftrightarrow>
     dram_size s = 0x25f5ffff8 \<and> mset (held s) = add_mset (Chrdev my_major modname) base"

text \<open>What the two entry points promise: a read returns the run of physical memory at the position,
  cut at the page end; a seek moves to the exact integer target if that is inside the device.\<close>

definition read_len :: "nat \<Rightarrow> nat \<Rightarrow> nat" where
  "read_len cnt pos = min cnt (PAGE_SIZE - pos mod PAGE_SIZE)"

definition phys_run :: "(u64 \<Rightarrow> u8) \<Rightarrow> nat \<Rightarrow> nat \<Rightarrow> u8 list" where
  "phys_run phys pos n = map (\<lambda>i. phys (of_nat (pos + i))) [0..<n]"

definition seek_spec :: "int \<Rightarrow> int \<Rightarrow> int \<Rightarrow> int \<Rightarrow> int option" where
  "seek_spec sz offset whence pos =
     (let target = (if whence = 0 then Some offset
                    else if whence = 1 then Some (pos + offset)
                    else if whence = 2 then Some (sz + offset)
                    else None)
      in case target of None \<Rightarrow> None | Some t \<Rightarrow> if 0 \<le> t \<and> t \<le> sz then Some t else None)"

text \<open>A loaded driver, for the witnesses.\<close>

definition dram_running :: dram_state where
  "dram_running = \<lparr>held = [Chrdev 85 ''dram''], dram_size = 0x25f5ffff8\<rparr>"

section \<open>Lemmas\<close>

text \<open>The largest count the VFS passes to a driver (\<^verbatim>\<open>MAX_RW_COUNT\<close>), and what the \<^verbatim>\<open>int\<close> casts do to
  positions inside a device of fewer than 2 to the 43 bytes: nothing.\<close>

abbreviation MAX_RW_COUNT :: nat where "MAX_RW_COUNT \<equiv> 0x7ffff000"

lemma page_number_exact:
  assumes "unat (pos :: u64) < 2 ^ 43"
  shows "(scast (ucast (pos div PAGE_SIZE) :: u32) :: u64) = pos div PAGE_SIZE"
proof (rule scast_ucast_u32)
  have "unat (pos div 4096) = unat pos div 4096" by (simp add: unat_div_distrib)
  then show "unat (pos div PAGE_SIZE) < 2 ^ 31" using assms by simp
qed

lemma unat_page_indent: "unat (pos mod PAGE_SIZE :: u64) = unat pos mod PAGE_SIZE"
  by (simp add: unat_mod_distrib)

lemma page_indent_exact: "(scast (ucast (pos mod PAGE_SIZE :: u64) :: u32) :: u64) = pos mod PAGE_SIZE"
  by (rule scast_ucast_u32) (simp add: unat_page_indent less_trans [OF mod_less_divisor])

lemma unat_page_indent_u32: "unat (ucast (pos mod PAGE_SIZE :: u64) :: u32) = unat pos mod PAGE_SIZE"
  by (simp add: unat_ucast_mod unat_page_indent less_trans [OF mod_less_divisor])

lemma unat_cnt1:
  assumes "unat cnt \<le> MAX_RW_COUNT"
  shows "unat (if (pos mod PAGE_SIZE :: u64) + cnt > PAGE_SIZE then PAGE_SIZE - pos mod PAGE_SIZE
               else cnt) = read_len (unat cnt) (unat pos)"
proof -
  have m: "unat (pos mod 4096) = unat pos mod 4096" by (rule unat_page_indent)
  have lt: "unat pos mod 4096 < 4096" by simp
  have sum: "unat (pos mod 4096 + cnt) = unat pos mod 4096 + unat cnt"
    using assms lt m by (subst unat_add_lem [THEN iffD1]) (simp_all add: m)
  have sub: "unat (4096 - pos mod 4096) = 4096 - unat pos mod 4096"
    using lt m by (subst unat_sub) (simp_all add: word_le_nat_alt m)
  show ?thesis
    using sum sub by (auto simp: read_len_def word_less_nat_alt)
qed

lemma addr_split: "pos div PAGE_SIZE * PAGE_SIZE + pos mod PAGE_SIZE + of_nat i = (of_nat (unat pos + i) :: u64)"
  by (simp add: div_mult_mod_eq)

lemma read_len_le: "read_len c p \<le> PAGE_SIZE"
  by (simp add: read_len_def)

lemma indent_read_len: "p mod PAGE_SIZE + read_len c p \<le> PAGE_SIZE"
proof -
  have "p mod PAGE_SIZE < (PAGE_SIZE :: nat)" by simp
  then show ?thesis unfolding read_len_def by linarith
qed

lemma length_phys_run [simp]: "length (phys_run phys p n) = n"
  by (simp add: phys_run_def)

text \<open>With the casts and the page arithmetic resolved, a read inside the device is this.\<close>

lemma my_read_inside:
  fixes phys :: "u64 \<Rightarrow> u8"
  assumes "pos < dram_size s" and "unat (dram_size s) \<le> 2 ^ 43" and "unat cnt \<le> MAX_RW_COUNT"
  defines "n \<equiv> read_len (unat cnt) (unat pos)"
  defines "data \<equiv> phys_run phys (unat pos) n"
  shows "my_read phys copy_to_user cnt pos s =
     (if (word_of_nat (copy_to_user data) :: u32) \<noteq> 0
      then Inr (- EFAULT, take (n - copy_to_user data) data, pos, s)
      else Inr (int n, take (n - copy_to_user data) data, pos + of_nat n, s))"
proof -
  have pos: "unat pos < 2 ^ 43" using assms(1,2) by (simp add: word_less_nat_alt)
  define c where "c = (if (pos mod PAGE_SIZE :: u64) + cnt > PAGE_SIZE then PAGE_SIZE - pos mod PAGE_SIZE else cnt)"
  have c: "unat c = n" unfolding c_def n_def by (rule unat_cnt1 [OF assms(3)])
  have c': "c = of_nat n" by (simp add: c [symmetric])
  have n: "n \<le> 4096" unfolding n_def by (rule read_len_le)
  have "sint c = uint c" using c n by (intro sint_eq_uint_small) simp
  then have sc: "sint c = int n" using c by (metis uint_nat)
  have fits: "\<not> (unat pos mod 4096 + n > 4096)"
    using indent_read_len [of "unat pos" "unat cnt"] by (simp add: n_def)
  have data: "map (\<lambda>i. phys (pos div 4096 * 4096 + pos mod 4096 + of_nat i)) [0..<n] = data"
    unfolding data_def phys_run_def by (simp only: addr_split)
  have inside: "\<not> dram_size s \<le> pos" using assms(1) by simp
  have len: "length data = n" by (simp add: data_def)
  show ?thesis
    unfolding my_read_def Let_def page_number_exact [OF pos] page_indent_exact
      unat_page_indent_u32 c_def [symmetric] c data
    using inside fits by (simp add: ledger_simps sc c' [symmetric] len)
qed

lemma signed_wrap_once:
  assumes "- (2 ^ 63) \<le> (k :: int)" and "k < 2 ^ 64"
  shows "signed_take_bit 63 k = (if k < 2 ^ 63 then k else k - 2 ^ 64)"
proof -
  have "(k + 2 ^ 63) mod 2 ^ 64 = (if k < 2 ^ 63 then k + 2 ^ 63 else k - 2 ^ 63)"
  proof (cases "k < 2 ^ 63")
    case True
    then show ?thesis using assms by (simp add: mod_pos_pos_trivial)
  next
    case False
    have "(k + 2 ^ 63) mod 2 ^ 64 = (k - 2 ^ 63 + 2 ^ 64) mod 2 ^ 64"
      by (simp add: add.commute)
    also have "\<dots> = k - 2 ^ 63"
      unfolding mod_add_self2 using False assms by (intro mod_pos_pos_trivial) auto
    finally show ?thesis using False by simp
  qed
  then show ?thesis
    by (simp add: signed_take_bit_eq_take_bit_shift take_bit_eq_mod)
qed

lemma sint_u64_cases: "sint (w :: u64) = (if uint w < 2 ^ 63 then uint w else uint w - 2 ^ 64)"
proof -
  have "sint w = signed_take_bit 63 (uint w)" by (simp add: sint_uint)
  also have "\<dots> = (if uint w < 2 ^ 63 then uint w else uint w - 2 ^ 64)"
  proof (rule signed_wrap_once)
    show "- (2 ^ 63) \<le> uint w" by (rule order_trans [of _ 0]) simp_all
    show "uint w < 2 ^ 64" using uint_lt2p [of w] by simp
  qed
  finally show ?thesis .
qed

text \<open>The 64-bit sum of a position and a signed offset: it is accepted exactly when the sum over the
  integers is inside the device, and then it is that sum.\<close>

lemma seek_sum:
  fixes b sz off :: u64
  assumes "uint b \<le> uint sz" and "uint sz < 2 ^ 62"
  defines "k \<equiv> uint b + sint off"
  shows "(sint (b + off) < 0 \<or> b + off > sz) \<longleftrightarrow> \<not> (0 \<le> k \<and> k \<le> uint sz)"
    and "0 \<le> k \<Longrightarrow> k \<le> uint sz \<Longrightarrow> sint (b + off) = k"
proof -
  have range: "- (2 ^ 63) \<le> sint off" "sint off < 2 ^ 63"
    using sint_ge [of off] sint_lt [of off] by simp_all
  have b: "sint b = uint b" using assms(1,2) by (simp add: sint_u64_cases)
  have b0: "0 \<le> uint b" by simp
  have low: "- (2 ^ 63) \<le> k" using range b0 unfolding k_def by linarith
  have high: "k < 2 ^ 64" using range(2) assms(1,2) by (simp add: k_def)
  have "sint (b + off) = signed_take_bit 63 k"
    unfolding k_def by (simp add: sint_word_ariths b)
  then have wrap: "sint (b + off) = (if k < 2 ^ 63 then k else k - 2 ^ 64)"
    using low high by (simp add: signed_wrap_once)
  show "sint (b + off) = k" if "0 \<le> k" "k \<le> uint sz"
    using that wrap assms(2) by simp
  show "(sint (b + off) < 0 \<or> b + off > sz) \<longleftrightarrow> \<not> (0 \<le> k \<and> k \<le> uint sz)"
  proof (cases "0 \<le> k \<and> k < 2 ^ 63")
    case True
    then have "sint (b + off) = k" using wrap by simp
    moreover from this have "uint (b + off) = k"
      using True uint_lt2p [of "b + off"] sint_u64_cases [of "b + off"] by (auto split: if_splits)
    ultimately show ?thesis using True by (auto simp: word_less_def)
  next
    case False
    then have "sint (b + off) < 0" using wrap range b0 assms(1,2) by (auto simp: k_def)
    moreover have "\<not> (0 \<le> k \<and> k \<le> uint sz)" using False assms(2) by auto
    ultimately show ?thesis by simp
  qed
qed

lemma dram_step_unchanged: "dram_step s s' \<Longrightarrow> s' = s"
  by (erule dram_step.cases)
    (auto simp: my_read_def Let_def ledger_simps split: if_splits)

interpretation dram: kmodule "\<lambda>s. mset (held s)" "\<lambda>_ _. True" dram_init dram_step dram_exit dram_loaded
proof unfold_locales
  show "\<exists>r s'. dram_init e s = Inr (r, s')" for e s
    by (simp add: dram_init_def Let_def)
  show "mset (held s') = mset (held s)" if "dram_init e s = Inr (r, s')" and "r \<noteq> 0" for e s r s'
    using that by (auto simp: dram_init_def Let_def split: if_splits)
  show "dram_loaded (mset (held s)) s'" if "dram_init e s = Inr (0, s')" for e s s'
    using that by (auto simp: dram_init_def dram_loaded_def Let_def acquire_def split: if_splits)
  show "dram_loaded base s'" if "dram_loaded base s" and "dram_step s s'" for base s s'
    using that dram_step_unchanged by blast
  show "\<exists>s'. dram_exit s = Inr s' \<and> mset (held s') = base" if "dram_loaded base s" for base s
    using that by (simp add: dram_exit_def dram_loaded_def release_mset)
qed

section \<open>Properties\<close>

text \<open>C2. On a loaded driver and for every count the VFS can pass, a read returns 0 at or past the end
  of the device and otherwise exactly the run of physical memory at the position, up to the count or
  the end of the page, whichever comes first; the position advances by the bytes read. When the copy
  to user space fails the result is \<^verbatim>\<open>-EFAULT\<close> and the position stays. On every path the page mapping
  is given back and no access leaves the mapped page.\<close>

theorem my_read_correct:
  fixes pos :: u64
  assumes "dram_loaded base s" and "unat cnt \<le> MAX_RW_COUNT"
    and "\<And>d. copy_to_user d \<le> length d"
  defines "n \<equiv> read_len (unat cnt) (unat pos)"
  shows "my_read phys copy_to_user cnt pos s =
     (if dram_size s \<le> pos then Inr (0, [], pos, s)
      else if copy_to_user (phys_run phys (unat pos) n) = 0
      then Inr (int n, phys_run phys (unat pos) n, pos + of_nat n, s)
      else Inr (- EFAULT, take (n - copy_to_user (phys_run phys (unat pos) n)) (phys_run phys (unat pos) n),
                pos, s))"
proof (cases "dram_size s \<le> pos")
  case True
  then show ?thesis by (simp add: my_read_def)
next
  case False
  let ?left = "copy_to_user (phys_run phys (unat pos) n)"
  have "?left \<le> 4096"
    using assms(3) [of "phys_run phys (unat pos) n"] read_len_le [of "unat cnt" "unat pos"]
    by (simp add: n_def)
  then have "(word_of_nat ?left :: u32) = 0 \<longleftrightarrow> ?left = 0"
    by (auto simp: word_of_nat_eq_0_iff dest: dvd_imp_le)
  with False assms show ?thesis
    by (simp add: my_read_inside dram_loaded_def n_def)
qed

text \<open>C10. A seek moves the file to the exact integer target (from the start, the position or the end)
  if that lies within the device and otherwise returns \<^verbatim>\<open>-EINVAL\<close> and leaves the position alone,
  for every 64-bit offset: the wrap-around of the 64-bit sum never turns an out-of-range target
  into an accepted one.\<close>

theorem my_llseek_refines:
  assumes "dram_loaded base s" and "f_pos \<le> dram_size s"
  shows "my_llseek offset whence f_pos s =
     (case seek_spec (uint (dram_size s)) (sint offset) whence (uint f_pos) of
        None \<Rightarrow> (- EINVAL, f_pos)
      | Some t \<Rightarrow> (t, word_of_int t))"
proof -
  have sz: "uint (dram_size s) < 2 ^ 62" using assms(1) by (simp add: dram_loaded_def)
  have pos: "uint f_pos \<le> uint (dram_size s)" using assms(2) by (simp add: word_le_def)
  note start = seek_sum [of 0 "dram_size s" offset]
    and current = seek_sum [of f_pos "dram_size s" offset]
    and ending = seek_sum [of "dram_size s" "dram_size s" offset]
  have zero: "offset = 0" if "sint offset = 0" using that by (simp add: signed_word_eqI)
  show ?thesis
    using start current ending sz pos zero
    by (simp add: my_llseek_def seek_spec_def)
qed

text \<open>The end-of-file test looks only at the position a read starts from, so the last page is read to
  its end: 16 bytes requested 8 bytes before the end of the device are all delivered, 8 of them past
  \<^verbatim>\<open>dram_size\<close>, and the position is left outside the range a seek accepts.\<close>

theorem my_read_past_end:
  assumes "dram_loaded base s"
  shows "my_read phys (\<lambda>_. 0) 16 (dram_size s - 8) s =
      Inr (16, phys_run phys 0x25f5ffff0 16, dram_size s + 8, s)
    \<and> my_llseek 0 1 (dram_size s + 8) s = (- EINVAL, dram_size s + 8)"
proof
  have sz: "dram_size s = 0x25f5ffff8" using assms by (simp add: dram_loaded_def)
  show "my_read phys (\<lambda>_. 0) 16 (dram_size s - 8) s =
      Inr (16, phys_run phys 0x25f5ffff0 16, dram_size s + 8, s)"
    using my_read_inside [of "dram_size s - 8" s 16 phys "\<lambda>_. 0"] by (simp add: sz read_len_def)
  show "my_llseek 0 1 (dram_size s + 8) s = (- EINVAL, dram_size s + 8)"
    by (simp add: my_llseek_def sz)
qed

text \<open>Loading the driver, reading through it in any way and unloading it, any number of times, with
  registrations that succeed or fail, leaves the ledger of kernel resources as it was; and a loaded
  driver can always be unloaded.\<close>

lemma dram_lifetimes:
  assumes "(lifetime (\<lambda>_ _. True) dram_init dram_step dram_exit)\<^sup>*\<^sup>* s s'"
  shows "mset (held s') = mset (held s)"
  using assms by (rule dram.lifetimes_balanced)

section \<open>Witnesses\<close>

lemma dram_running_loaded: "dram_loaded {#} dram_running"
  by (simp add: dram_loaded_def dram_running_def my_major_def modname_def)

lemma dram_size_running [simp]: "dram_size dram_running = 0x25f5ffff8"
  by (simp add: dram_running_def)

theorem my_read_correct_witness:
  "my_read ucast (\<lambda>_. 0) 5 8190 dram_running = Inr (2, [0xfe, 0xff], 8192, dram_running)
   \<and> my_read ucast (\<lambda>d. min 1 (length d)) 5 8190 dram_running = Inr (- EFAULT, [0xfe], 8190, dram_running)
   \<and> my_read ucast (\<lambda>_. 0) 5 0x25f5ffff8 dram_running = Inr (0, [], 0x25f5ffff8, dram_running)"
  using my_read_correct [OF dram_running_loaded, of 5 "\<lambda>_. 0" ucast 8190]
    my_read_correct [OF dram_running_loaded, of 5 "\<lambda>d. min 1 (length d)" ucast 8190]
    my_read_correct [OF dram_running_loaded, of 5 "\<lambda>_. 0" ucast "0x25f5ffff8"]
  by (simp add: read_len_def phys_run_def upt_rec)

theorem my_llseek_refines_witness:
  "my_llseek (- 8) 2 0 dram_running = (0x25f5ffff0, 0x25f5ffff0)
   \<and> my_llseek 0x7fffffffffffffff 1 16 dram_running = (- EINVAL, 16)"
  using my_llseek_refines [OF dram_running_loaded, of 0 "- 8" 2]
    my_llseek_refines [OF dram_running_loaded, of 16 "0x7fffffffffffffff" 1]
  by (simp add: seek_spec_def dram_running_def)

theorem my_read_past_end_witness:
  "my_read ucast (\<lambda>_. 0) 16 0x25f5ffff0 dram_running =
     Inr (16, phys_run ucast 0x25f5ffff0 16, 0x25f600000, dram_running)"
  using my_read_past_end [OF dram_running_loaded, of ucast] by (simp add: dram_running_def)

lemma dram_lifetimes_runs:
  "\<exists>s. lifetime (\<lambda>_ _. True) dram_init dram_step dram_exit \<lparr>held = [], dram_size = 0\<rparr> s"
proof (rule dram.lifetime_exists)
  show "dram_init (\<lambda>_ _. 0) \<lparr>held = [], dram_size = 0\<rparr> = Inr (0, dram_running)"
    by (simp add: dram_init_def dram_running_def acquire_def my_major_def modname_def)
qed simp

end
