(* ===== verification/Klist.thy ===== *)
theory Klist
  imports Prelude
begin

text \<open>
  The circular lists of \<^verbatim>\<open>linux/list.h\<close>, which are not part of the repository: the operations the
  modules call are fields of a record that their models take as an argument, the loops
  \<^verbatim>\<open>list_for_each\<close> and \<^verbatim>\<open>list_for_each_safe\<close> are written over them, and the documented behaviour is the
  locale \<open>klist\<close>. The locale's lemmas say that a traversal of a well-formed list returns and visits
  exactly its elements in order, and that the safe traversal does so even when its body unlinks the
  element it is looking at. A doubly linked heap is an instance of the locale.
\<close>

section \<open>Operations and loops\<close>

record 'h list_ops =
  list_next :: "'h \<Rightarrow> u64 \<Rightarrow> u64"                \<comment> \<open>\<^verbatim>\<open>pos->next\<close>\<close>
  list_add_tail :: "u64 \<Rightarrow> u64 \<Rightarrow> 'h \<Rightarrow> 'h"       \<comment> \<open>\<^verbatim>\<open>list_add_tail(new, head)\<close>\<close>
  list_del :: "u64 \<Rightarrow> 'h \<Rightarrow> 'h"                 \<comment> \<open>\<^verbatim>\<open>list_del(entry)\<close>\<close>

text \<open>The loops, from a current position on. The links live in the state \<open>'s\<close> that the body changes,
  and \<open>hp\<close> reads them from it.\<close>

partial_function (option) each_from ::
  "'h list_ops \<Rightarrow> ('s \<Rightarrow> 'h) \<Rightarrow> u64 \<Rightarrow> (u64 \<Rightarrow> 's \<Rightarrow> crash + 's) \<Rightarrow> u64 \<Rightarrow> 's \<Rightarrow> (crash + 's) option" where
  "each_from L hp head body pos s =
     (if pos = head then Some (Inr s)
      else case body pos s of
        Inl e \<Rightarrow> Some (Inl e)
      | Inr s' \<Rightarrow> each_from L hp head body (list_next L (hp s') pos) s')"

partial_function (option) each_safe_from ::
  "'h list_ops \<Rightarrow> ('s \<Rightarrow> 'h) \<Rightarrow> u64 \<Rightarrow> (u64 \<Rightarrow> 's \<Rightarrow> crash + 's) \<Rightarrow> u64 \<Rightarrow> u64 \<Rightarrow> 's \<Rightarrow>
    (crash + 's) option" where
  "each_safe_from L hp head body p n s =
     (if p = head then Some (Inr s)
      else case body p s of
        Inl e \<Rightarrow> Some (Inl e)
      | Inr s' \<Rightarrow> each_safe_from L hp head body n (list_next L (hp s') n) s')"

definition list_for_each ::
  "'h list_ops \<Rightarrow> ('s \<Rightarrow> 'h) \<Rightarrow> u64 \<Rightarrow> (u64 \<Rightarrow> 's \<Rightarrow> crash + 's) \<Rightarrow> 's \<Rightarrow> crash + 's" where
  "list_for_each L hp head body s = looping (each_from L hp head body (list_next L (hp s) head) s)"

definition list_for_each_safe ::
  "'h list_ops \<Rightarrow> ('s \<Rightarrow> 'h) \<Rightarrow> u64 \<Rightarrow> (u64 \<Rightarrow> 's \<Rightarrow> crash + 's) \<Rightarrow> 's \<Rightarrow> crash + 's" where
  "list_for_each_safe L hp head body s =
     looping (each_safe_from L hp head body (list_next L (hp s) head)
       (list_next L (hp s) (list_next L (hp s) head)) s)"

text \<open>What the loops should compute: the body over the elements, stopping at a crash.\<close>

fun each :: "('a \<Rightarrow> 's \<Rightarrow> crash + 's) \<Rightarrow> 'a list \<Rightarrow> 's \<Rightarrow> crash + 's" where
  "each body [] s = Inr s"
| "each body (x # xs) s = andThen (body x s) (each body xs)"

lemma each_append: "each body (xs @ ys) s = andThen (each body xs s) (each body ys)"
  by (induction xs arbitrary: s) (auto simp: andThen_def split: sum.splits)

section \<open>The contract of a list\<close>

locale klist =
  fixes L :: "'h list_ops" and is_list :: "'h \<Rightarrow> u64 \<Rightarrow> u64 list \<Rightarrow> bool"
  assumes is_list_distinct: "is_list h head xs \<Longrightarrow> distinct (head # xs)"
    and next_nth: "is_list h head xs \<Longrightarrow> i \<le> length xs \<Longrightarrow>
      list_next L h ((head # xs) ! i) = (xs @ [head]) ! i"
    and is_list_add_tail: "is_list h head xs \<Longrightarrow> x \<notin> set (head # xs) \<Longrightarrow>
      is_list (list_add_tail L x head h) head (xs @ [x])"
    and is_list_del: "is_list h head (xs @ x # ys) \<Longrightarrow> is_list (list_del L x h) head (xs @ ys)"
begin

lemma next_head: "is_list h head xs \<Longrightarrow> list_next L h head = hd (xs @ [head])"
  using next_nth [of h head xs 0] by (cases xs) simp_all

lemma next_elem: "is_list h head (xs @ x # ys) \<Longrightarrow> list_next L h x = hd (ys @ [head])"
  using next_nth [of h head "xs @ x # ys" "Suc (length xs)"]
  by (cases ys) (simp_all add: nth_append)

lemma head_notin: "is_list h head xs \<Longrightarrow> head \<notin> set xs"
  using is_list_distinct by fastforce

text \<open>A traversal whose body keeps the links returns, and is the body over the elements in order.\<close>

lemma each_from_suffix:
  assumes inv: "\<And>s. I s \<Longrightarrow> is_list (hp s) head xs"
    and keep: "\<And>x s s'. x \<in> set xs \<Longrightarrow> I s \<Longrightarrow> body x s = Inr s' \<Longrightarrow> I s'"
  shows "I s \<Longrightarrow> xs = pre @ suf \<Longrightarrow>
    each_from L hp head body (hd (suf @ [head])) s = Some (each body suf s)"
proof (induction suf arbitrary: pre s)
  case Nil
  then show ?case by (simp add: each_from.simps)
next
  case (Cons x suf)
  have x: "x \<in> set xs" "x \<noteq> head"
    using Cons.prems head_notin [OF inv] by auto
  show ?case
  proof (cases "body x s")
    case (Inl e)
    with x show ?thesis by (simp add: each_from.simps)
  next
    case (Inr s')
    then have "I s'" using keep x(1) Cons.prems(1) by blast
    moreover from this have "list_next L (hp s') x = hd (suf @ [head])"
      using inv Cons.prems(2) next_elem by blast
    ultimately show ?thesis
      using Cons.IH [of s' "pre @ [x]"] Cons.prems(2) x(2) Inr by (simp add: each_from.simps)
  qed
qed

lemma list_for_each_each:
  assumes "\<And>s. I s \<Longrightarrow> is_list (hp s) head xs"
    and "\<And>x s s'. x \<in> set xs \<Longrightarrow> I s \<Longrightarrow> body x s = Inr s' \<Longrightarrow> I s'"
    and "I s"
  shows "list_for_each L hp head body s = each body xs s"
  using each_from_suffix [of I hp head xs body s "[]" xs] assms next_head [OF assms(1) [OF assms(3)]]
  by (simp add: list_for_each_def)

text \<open>The safe traversal: its body may unlink the element it is given, and nothing else. \<open>I kept rem s\<close>
  says that the list holds the kept elements and then those still to visit.\<close>

lemma each_safe_from_suffix:
  assumes inv: "\<And>kept rem s. I kept rem s \<Longrightarrow> is_list (hp s) head (kept @ rem)"
    and step: "\<And>kept x rem s s'. I kept (x # rem) s \<Longrightarrow> body x s = Inr s' \<Longrightarrow> \<exists>kept'. I kept' rem s'"
  shows "I kept rem s \<Longrightarrow> n = (if rem = [] then n else hd (tl rem @ [head])) \<Longrightarrow>
    each_safe_from L hp head body (hd (rem @ [head])) n s = Some (each body rem s)"
proof (induction rem arbitrary: kept s n)
  case Nil
  then show ?case by (simp add: each_safe_from.simps)
next
  case (Cons x rem)
  have x: "x \<noteq> head" using head_notin [OF inv [OF Cons.prems(1)]] by auto
  show ?case
  proof (cases "body x s")
    case (Inl e)
    with x show ?thesis by (simp add: each_safe_from.simps)
  next
    case (Inr s')
    then obtain kept' where I: "I kept' rem s'" using step Cons.prems(1) by blast
    have "list_next L (hp s') (hd rem) = hd (tl rem @ [head])" if "rem \<noteq> []"
      using that inv [OF I] next_elem [of "hp s'" head kept' "hd rem" "tl rem"] by simp
    with Cons.IH [OF I] Cons.prems(2) x Inr show ?thesis
      by (cases rem) (simp_all add: each_safe_from.simps)
  qed
qed

lemma list_for_each_safe_each:
  assumes "\<And>kept rem s. I kept rem s \<Longrightarrow> is_list (hp s) head (kept @ rem)"
    and "\<And>kept x rem s s'. I kept (x # rem) s \<Longrightarrow> body x s = Inr s' \<Longrightarrow> \<exists>kept'. I kept' rem s'"
    and "I [] xs s"
  shows "list_for_each_safe L hp head body s = each body xs s"
proof -
  have l: "is_list (hp s) head xs" using assms(1) [OF assms(3)] by simp
  have "list_next L (hp s) (hd xs) = hd (tl xs @ [head])" if "xs \<noteq> []"
    using that l next_elem [of "hp s" head "[]" "hd xs" "tl xs"] by simp
  then show ?thesis
    using each_safe_from_suffix [of I hp head body "[]" xs s, OF assms] next_head [OF l]
    by (cases xs) (simp_all add: list_for_each_safe_def)
qed

end

section \<open>A doubly linked heap\<close>

text \<open>The instance: the two link fields of every \<^verbatim>\<open>struct list_head\<close> as maps from addresses.\<close>

record dlinks =
  next_of :: "u64 \<Rightarrow> u64"
  prev_of :: "u64 \<Rightarrow> u64"

definition dl_add_tail :: "u64 \<Rightarrow> u64 \<Rightarrow> dlinks \<Rightarrow> dlinks" where
  "dl_add_tail x head h =
     (let p = prev_of h head
      in \<lparr>next_of = (next_of h)(x := head, p := x), prev_of = (prev_of h)(head := x, x := p)\<rparr>)"

definition dl_del :: "u64 \<Rightarrow> dlinks \<Rightarrow> dlinks" where
  "dl_del x h =
     (let n = next_of h x; p = prev_of h x
      in \<lparr>next_of = (next_of h)(p := n), prev_of = (prev_of h)(n := p)\<rparr>)"

definition dl_ops :: "dlinks list_ops" where
  "dl_ops = \<lparr>list_next = next_of, list_add_tail = dl_add_tail, list_del = dl_del\<rparr>"

text \<open>The links from \<open>a\<close> through the elements to \<open>b\<close>, both ways.\<close>

fun chain :: "dlinks \<Rightarrow> u64 \<Rightarrow> u64 list \<Rightarrow> u64 \<Rightarrow> bool" where
  "chain h a [] b = (next_of h a = b \<and> prev_of h b = a)"
| "chain h a (x # xs) b = (next_of h a = x \<and> prev_of h x = a \<and> chain h x xs b)"

definition dl_list :: "dlinks \<Rightarrow> u64 \<Rightarrow> u64 list \<Rightarrow> bool" where
  "dl_list h head xs \<longleftrightarrow> distinct (head # xs) \<and> chain h head xs head"

text \<open>The links of a list head alone, as \<^verbatim>\<open>LIST_HEAD\<close> initialises it.\<close>

definition dl_empty :: dlinks where
  "dl_empty = \<lparr>next_of = (\<lambda>a. a), prev_of = (\<lambda>a. a)\<rparr>"

lemma chain_append: "chain h a (xs @ x # ys) b \<longleftrightarrow> chain h a xs x \<and> chain h x ys b"
  by (induction xs arbitrary: a) auto

lemma chain_frame:
  assumes "\<And>u. u \<in> set (a # xs) \<Longrightarrow> next_of h' u = next_of h u"
    and "\<And>u. u \<in> set (b # xs) \<Longrightarrow> prev_of h' u = prev_of h u"
  shows "chain h' a xs b = chain h a xs b"
  using assms by (induction xs arbitrary: a) auto

lemma chain_next:
  "chain h a xs b \<Longrightarrow> i \<le> length xs \<Longrightarrow> next_of h ((a # xs) ! i) = (xs @ [b]) ! i"
proof (induction xs arbitrary: a i)
  case Nil
  then show ?case by simp
next
  case (Cons x xs)
  then show ?case by (cases i) auto
qed

lemma chain_first: "chain h a xs b \<Longrightarrow> next_of h a = hd (xs @ [b])"
  by (cases xs) auto

lemma chain_last: "chain h a xs b \<Longrightarrow> prev_of h b = last (a # xs)"
  by (induction xs arbitrary: a) auto

lemma dl_list_add_tail:
  assumes "dl_list h head xs" and "x \<notin> set (head # xs)"
  shows "dl_list (dl_add_tail x head h) head (xs @ [x])"
proof (cases xs rule: rev_cases)
  case Nil
  then show ?thesis using assms by (auto simp: dl_list_def dl_add_tail_def Let_def)
next
  case (snoc ys l)
  with assms have d: "distinct (head # ys @ [l, x])" and c: "chain h head ys l" "prev_of h head = l"
    by (auto simp: dl_list_def chain_append)
  let ?h = "dl_add_tail x head h"
  have "chain ?h head ys l \<longleftrightarrow> chain h head ys l"
    by (rule chain_frame) (use d c(2) in \<open>auto simp: dl_add_tail_def Let_def\<close>)
  moreover have "chain ?h l [x] head"
    using d c(2) by (auto simp: dl_add_tail_def Let_def)
  ultimately show ?thesis using d c by (simp add: snoc dl_list_def chain_append)
qed

lemma chain_unlink:
  assumes "chain h a xs x" and "chain h x ys b"
    and "distinct (a # xs @ x # ys)" and "b \<notin> set (xs @ x # ys)"
  shows "chain (dl_del x h) a (xs @ ys) b"
proof -
  let ?h = "dl_del x h"
  consider "xs = []" "ys = []" | us p where "xs = us @ [p]" "ys = []"
    | n vs where "xs = []" "ys = n # vs" | us p n vs where "xs = us @ [p]" "ys = n # vs"
    by (metis neq_Nil_conv rev_exhaust)
  then show ?thesis
  proof cases
    case 1
    then show ?thesis using assms by (auto simp: dl_del_def Let_def)
  next
    case (2 us p)
    have "chain ?h a us p = chain h a us p"
      by (rule chain_frame) (use 2 assms in \<open>auto simp: dl_del_def Let_def chain_append\<close>)
    with 2 assms show ?thesis by (auto simp: dl_del_def Let_def chain_append)
  next
    case (3 n vs)
    have "chain ?h n vs b = chain h n vs b"
      by (rule chain_frame) (use 3 assms in \<open>auto simp: dl_del_def Let_def\<close>)
    with 3 assms show ?thesis by (auto simp: dl_del_def Let_def)
  next
    case (4 us p n vs)
    have "chain ?h a us p = chain h a us p"
      by (rule chain_frame) (use 4 assms in \<open>auto simp: dl_del_def Let_def chain_append\<close>)
    moreover have "chain ?h n vs b = chain h n vs b"
      by (rule chain_frame) (use 4 assms in \<open>auto simp: dl_del_def Let_def chain_append\<close>)
    ultimately show ?thesis using 4 assms by (auto simp: dl_del_def Let_def chain_append)
  qed
qed

interpretation dl: klist dl_ops dl_list
proof unfold_locales
  show "distinct (head # xs)" if "dl_list h head xs" for h head xs
    using that by (simp add: dl_list_def)
  show "list_next dl_ops h ((head # xs) ! i) = (xs @ [head]) ! i"
    if "dl_list h head xs" and "i \<le> length xs" for h head xs i
    using that chain_next [of h head xs head i] by (simp add: dl_list_def dl_ops_def)
  show "dl_list (list_add_tail dl_ops x head h) head (xs @ [x])"
    if "dl_list h head xs" and "x \<notin> set (head # xs)" for h head xs x
    using dl_list_add_tail [OF that] by (simp add: dl_ops_def)
  show "dl_list (list_del dl_ops x h) head (xs @ ys)" if "dl_list h head (xs @ x # ys)" for h head xs x ys
    using that chain_unlink [of h head xs x ys head]
    by (auto simp: dl_list_def dl_ops_def chain_append)
qed

lemma dl_list_empty: "dl_list dl_empty head []"
  by (simp add: dl_list_def dl_empty_def)

end
