(* ===== verification/Cformat.thy ===== *)
theory Cformat
  imports Prelude
begin

text \<open>
  The number formatting of \<^verbatim>\<open>printf\<close>, \<^verbatim>\<open>sprintf\<close> and \<^verbatim>\<open>printk\<close> that the sources use (\<^verbatim>\<open>%d\<close>, \<^verbatim>\<open>%u\<close>,
  \<^verbatim>\<open>%x\<close>, \<^verbatim>\<open>%X\<close>, with zero padding) and the digit parser behind \<^verbatim>\<open>strtoul\<close> and \<^verbatim>\<open>strtoull\<close>. The main
  fact is the round trip: parsing the digits of a number gives the number back.
\<close>

named_theorems fmt_simps

section \<open>Digits\<close>

definition digit_lower :: "nat \<Rightarrow> char" where
  "digit_lower d = (if d < 10 then char_of (48 + d) else char_of (87 + d))"

definition digit_upper :: "nat \<Rightarrow> char" where
  "digit_upper d = (if d < 10 then char_of (48 + d) else char_of (55 + d))"

text \<open>The digits of a number, most significant first, with no leading zero.\<close>

function udigits :: "(nat \<Rightarrow> char) \<Rightarrow> nat \<Rightarrow> nat \<Rightarrow> string" where
  "udigits dc b n =
     (if b < 2 \<or> n < b then [dc n] else udigits dc b (n div b) @ [dc (n mod b)])"
  by pat_completeness auto
termination
  by (relation "measure (\<lambda>(dc, b, n). n)") auto

declare udigits.simps [simp del]

text \<open>Zero padding to a minimal width, as \<^verbatim>\<open>%02x\<close> does.\<close>

definition zpad :: "nat \<Rightarrow> string \<Rightarrow> string" where
  "zpad w s = replicate (w - length s) (CHR ''0'') @ s"

definition fmt_u :: "nat \<Rightarrow> string" where
  "fmt_u n = udigits digit_lower 10 n"

definition fmt_d :: "int \<Rightarrow> string" where
  "fmt_d i = (if i < 0 then CHR ''-'' # fmt_u (nat (- i)) else fmt_u (nat i))"

definition fmt_x :: "nat \<Rightarrow> nat \<Rightarrow> string" where
  "fmt_x w n = zpad w (udigits digit_lower 16 n)"

definition fmt_X :: "nat \<Rightarrow> nat \<Rightarrow> string" where
  "fmt_X w n = zpad w (udigits digit_upper 16 n)"

text \<open>\<^verbatim>\<open>sprintf\<close> to the start of a buffer writes the text and its terminating zero, and runs off the end
  of a buffer that is too short.\<close>

definition sprintf_into :: "u8 list \<Rightarrow> string \<Rightarrow> crash + u8 list" where
  "sprintf_into b s = (if length b < Suc (length s) then Inl Bad_access else Inr (buf_put b 0 (cstr s)))"

section \<open>Parsing\<close>

text \<open>The value of a character as a digit in any base up to 36, as \<^verbatim>\<open>strtoul\<close> reads it.\<close>

definition digit_val :: "char \<Rightarrow> nat option" where
  "digit_val c = (let n = of_char c :: nat in
     if 48 \<le> n \<and> n \<le> 57 then Some (n - 48)
     else if 97 \<le> n \<and> n \<le> 122 then Some (n - 87)
     else if 65 \<le> n \<and> n \<le> 90 then Some (n - 55)
     else None)"

text \<open>The longest prefix of digits of the base, folded into the accumulator.\<close>

fun parse_digits :: "nat \<Rightarrow> nat \<Rightarrow> string \<Rightarrow> nat" where
  "parse_digits b acc [] = acc"
| "parse_digits b acc (c # cs) =
     (case digit_val c of
        Some d \<Rightarrow> if d < b then parse_digits b (acc * b + d) cs else acc
      | None \<Rightarrow> acc)"

text \<open>Characters as the C library classifies them; the character of a C string at an index up to its
  terminating zero.\<close>

definition char_at :: "string \<Rightarrow> nat \<Rightarrow> char" where
  "char_at s i = (if i < length s then s ! i else CHR 0x00)"

definition tolower :: "char \<Rightarrow> char" where
  "tolower c = (if 65 \<le> (of_char c :: nat) \<and> (of_char c :: nat) \<le> 90 then char_of ((of_char c :: nat) + 32) else c)"

definition isspace :: "char \<Rightarrow> bool" where
  "isspace c \<longleftrightarrow> (let n = of_char c :: nat in n = 32 \<or> (9 \<le> n \<and> n \<le> 13))"

definition is_digit :: "nat \<Rightarrow> char \<Rightarrow> bool" where
  "is_digit b c = (case digit_val c of None \<Rightarrow> False | Some d \<Rightarrow> d < b)"

section \<open>Little-endian values\<close>

text \<open>Little-endian values of \<open>n\<close> bytes, as the machine loads and stores them.\<close>

fun le_val :: "u8 list \<Rightarrow> nat" where
  "le_val [] = 0"
| "le_val (b # bs) = unat b + 256 * le_val bs"

fun le_bytes :: "nat \<Rightarrow> nat \<Rightarrow> u8 list" where
  "le_bytes 0 v = []"
| "le_bytes (Suc n) v = of_nat (v mod 256) # le_bytes n (v div 256)"

section \<open>Lemmas\<close>

lemma digit_val_lower [fmt_simps]: "d < 36 \<Longrightarrow> digit_val (digit_lower d) = Some d"
  by (simp add: digit_val_def digit_lower_def Let_def)

lemma digit_val_upper [fmt_simps]: "d < 36 \<Longrightarrow> digit_val (digit_upper d) = Some d"
  by (simp add: digit_val_def digit_upper_def Let_def)

lemma parse_digits_append:
  assumes "\<forall>c \<in> set xs. \<exists>d. digit_val c = Some d \<and> d < b"
  shows "parse_digits b acc (xs @ ys) = parse_digits b (parse_digits b acc xs) ys"
  using assms by (induction xs arbitrary: acc) auto

lemma udigits_valid:
  assumes dc: "\<And>d. d < b \<Longrightarrow> digit_val (dc d) = Some d" and b: "2 \<le> b"
  shows "\<forall>c \<in> set (udigits dc b n). \<exists>d. digit_val c = Some d \<and> d < b"
proof (induction n rule: less_induct)
  case (less n)
  show ?case
  proof (cases "n < b")
    case True
    then show ?thesis using dc by (simp add: udigits.simps [of dc b n])
  next
    case False
    with b have "n div b < n" by simp
    with less b have "\<forall>c \<in> set (udigits dc b (n div b)). \<exists>d. digit_val c = Some d \<and> d < b"
      by blast
    with False b dc show ?thesis by (simp add: udigits.simps [of dc b n])
  qed
qed

lemma parse_udigits:
  assumes dc: "\<And>d. d < b \<Longrightarrow> digit_val (dc d) = Some d" and b: "2 \<le> b"
  shows "parse_digits b 0 (udigits dc b n) = n"
proof (induction n rule: less_induct)
  case (less n)
  show ?case
  proof (cases "n < b")
    case True
    then show ?thesis using dc by (simp add: udigits.simps [of dc b n])
  next
    case False
    with b have "n div b < n" by simp
    with less have "parse_digits b 0 (udigits dc b (n div b)) = n div b" .
    with False b dc show ?thesis
      by (simp add: udigits.simps [of dc b n] parse_digits_append [OF udigits_valid [OF dc b]])
  qed
qed

lemma parse_zeros [fmt_simps]:
  "0 < b \<Longrightarrow> parse_digits b 0 (replicate k (CHR ''0'') @ s) = parse_digits b 0 s"
  by (induction k) (simp_all add: digit_val_def Let_def)

lemma parse_fmt_u [fmt_simps]: "parse_digits 10 0 (fmt_u n) = n"
  by (simp add: fmt_u_def parse_udigits digit_val_lower)

lemma parse_fmt_x [fmt_simps]: "parse_digits 16 0 (fmt_x w n) = n"
  by (simp add: fmt_x_def zpad_def fmt_simps parse_udigits)

lemma parse_fmt_X [fmt_simps]: "parse_digits 16 0 (fmt_X w n) = n"
  by (simp add: fmt_X_def zpad_def fmt_simps parse_udigits)

lemma fmt_u_inj: "fmt_u m = fmt_u n \<longleftrightarrow> m = n"
  by (metis parse_fmt_u)

text \<open>A number below \<open>b ^ k\<close> has at most \<open>k\<close> digits, so a padded field has its exact width.\<close>

lemma length_udigits_le:
  "2 \<le> b \<Longrightarrow> n < b ^ k \<Longrightarrow> 0 < k \<Longrightarrow> length (udigits dc b n) \<le> k"
proof (induction k arbitrary: n)
  case 0
  then show ?case by simp
next
  case (Suc k)
  show ?case
  proof (cases "n < b")
    case True
    then show ?thesis by (simp add: udigits.simps [of dc b n])
  next
    case False
    with Suc.prems have "0 < k" by (cases k) auto
    moreover have "n div b < b ^ k"
      using Suc.prems by (simp add: less_mult_imp_div_less mult.commute)
    ultimately have "length (udigits dc b (n div b)) \<le> k"
      using Suc by simp
    with False Suc.prems show ?thesis by (simp add: udigits.simps [of dc b n])
  qed
qed

lemma length_zpad: "length (zpad w s) = max w (length s)"
  by (simp add: zpad_def max_def)

lemma length_fmt_X [fmt_simps]: "n < 16 ^ w \<Longrightarrow> 0 < w \<Longrightarrow> length (fmt_X w n) = w"
  using length_udigits_le [of 16 n w digit_upper] by (simp add: fmt_X_def length_zpad max_def)

lemma length_fmt_x [fmt_simps]: "n < 16 ^ w \<Longrightarrow> 0 < w \<Longrightarrow> length (fmt_x w n) = w"
  using length_udigits_le [of 16 n w digit_lower] by (simp add: fmt_x_def length_zpad max_def)

lemma length_fmt_u_le: "n < 10 ^ k \<Longrightarrow> 0 < k \<Longrightarrow> length (fmt_u n) \<le> k"
  using length_udigits_le [of 10 n k digit_lower] by (simp add: fmt_u_def)

lemma fmt_u_no_nul: "CHR 0x00 \<notin> set (fmt_u n)"
proof
  assume "CHR 0x00 \<in> set (fmt_u n)"
  then have "digit_val (CHR 0x00) \<noteq> None"
    using udigits_valid [of 10 digit_lower n] by (auto simp: fmt_u_def digit_val_lower)
  then show False by (simp add: digit_val_def)
qed

lemma sprintf_into_fits [fmt_simps]:
  "Suc (length s) \<le> length b \<Longrightarrow> sprintf_into b s = Inr (buf_put b 0 (cstr s))"
  by (simp add: sprintf_into_def)

lemma string_at_put [fmt_simps]: "CHR 0x00 \<notin> set s \<Longrightarrow> string_at (buf_put b 0 (cstr s)) = s"
  by (simp add: buf_put_def string_at_cstr)

text \<open>Evaluation of the formatting functions on numerals by the simplifier.\<close>

lemma digit_lower_eval:
  "digit_lower 0 = CHR ''0''"
  "digit_lower 1 = CHR ''1''"
  "digit_lower 2 = CHR ''2''"
  "digit_lower 3 = CHR ''3''"
  "digit_lower 4 = CHR ''4''"
  "digit_lower 5 = CHR ''5''"
  "digit_lower 6 = CHR ''6''"
  "digit_lower 7 = CHR ''7''"
  "digit_lower 8 = CHR ''8''"
  "digit_lower 9 = CHR ''9''"
  "digit_lower 10 = CHR ''a''"
  "digit_lower 11 = CHR ''b''"
  "digit_lower 12 = CHR ''c''"
  "digit_lower 13 = CHR ''d''"
  "digit_lower 14 = CHR ''e''"
  "digit_lower 15 = CHR ''f''"
  by code_simp+

lemma digit_upper_eval:
  "digit_upper 0 = CHR ''0''"
  "digit_upper 1 = CHR ''1''"
  "digit_upper 2 = CHR ''2''"
  "digit_upper 3 = CHR ''3''"
  "digit_upper 4 = CHR ''4''"
  "digit_upper 5 = CHR ''5''"
  "digit_upper 6 = CHR ''6''"
  "digit_upper 7 = CHR ''7''"
  "digit_upper 8 = CHR ''8''"
  "digit_upper 9 = CHR ''9''"
  "digit_upper 10 = CHR ''A''"
  "digit_upper 11 = CHR ''B''"
  "digit_upper 12 = CHR ''C''"
  "digit_upper 13 = CHR ''D''"
  "digit_upper 14 = CHR ''E''"
  "digit_upper 15 = CHR ''F''"
  by code_simp+

lemmas fmt_eval = fmt_d_def fmt_u_def fmt_x_def fmt_X_def zpad_def udigits.simps
  digit_lower_eval digit_upper_eval
  digit_lower_eval(2) [unfolded One_nat_def] digit_upper_eval(2) [unfolded One_nat_def]

lemma le_val_less: "le_val bs < 256 ^ length bs"
proof (induction bs)
  case (Cons b bs)
  have "unat b < 256" using unsigned_less [of b] by simp
  with Cons show ?case by (simp add: numeral_eq_Suc)
qed simp

lemma length_le_bytes [simp]: "length (le_bytes n v) = n"
  by (induction n arbitrary: v) auto

lemma le_val_bytes: "le_val (le_bytes n v) = v mod 256 ^ n"
proof (induction n arbitrary: v)
  case (Suc n)
  have "unat (of_nat (v mod 256) :: u8) = v mod 256" by (simp add: unat_of_nat)
  then show ?case using Suc by (simp add: mod_mult2_eq)
qed simp

end
