(* ===== verification/Listopt.thy ===== *)
theory Listopt
  imports Klist Cformat Lifecycle
begin

text \<open>
  \<^verbatim>\<open>src/code/mylistopt/mylistopt.c\<close>: a kernel list of allocated records that is filled, printed, pruned of
  its odd entries and emptied, and a kernel thread. The links are abstract (\<open>Klist\<close>); an object lives
  at the address of its \<^verbatim>\<open>list\<close> field, which is its first, so \<^verbatim>\<open>list_entry\<close> is the identity on addresses.
  \<open>objs\<close> maps the address of every live object to its fields: reading an address that is not there is a
  use after free. The addresses \<^verbatim>\<open>kzalloc\<close> returns, the task \<^verbatim>\<open>kthread_create\<close> returns and the answers of
  \<^verbatim>\<open>kthread_should_stop\<close> are parameters. \<open>klog\<close> holds the lines of the print and delete functions.
\<close>

section \<open>The module\<close>

definition MAX_LIST_N :: nat where
  "MAX_LIST_N = 100"

definition MAX_CHAR_N :: nat where
  "MAX_CHAR_N = 50"

record my_struct =
  ms_name :: "u8 list"
  ms_pid :: int
  ms_id :: int

record 'h listopt = kernel +
  links :: 'h
  objs :: "u64 \<rightharpoonup> my_struct"
  my_kernel_task :: u64
  entry_times :: u32
  klog :: "string list"

text \<open>The thread: one pass of its loop, and the loop. \<open>stop k\<close> is the answer of \<^verbatim>\<open>kthread_should_stop\<close>
  on pass \<open>k\<close>.\<close>

partial_function (option) thread_from :: "(nat \<Rightarrow> bool) \<Rightarrow> nat \<Rightarrow> 'h listopt \<Rightarrow> (crash + int \<times> 'h listopt) option" where
  "thread_from stop k s =
     (if stop k then Some (Inr (0, s))
      else thread_from stop (Suc k) (s\<lparr>entry_times := entry_times s + 1\<rparr>))"

definition mytask_thread_func :: "(nat \<Rightarrow> bool) \<Rightarrow> 'h listopt \<Rightarrow> crash + int \<times> 'h listopt" where
  "mytask_thread_func stop s = looping (thread_from stop 0 s)"

text \<open>The loop of \<^verbatim>\<open>mylistopt_add_all\<close> from index \<open>i\<close> on; \<open>kz i\<close> is the address \<^verbatim>\<open>kzalloc\<close> returns there.\<close>

function add_from :: "'h list_ops \<Rightarrow> u64 \<Rightarrow> (nat \<Rightarrow> u64) \<Rightarrow> int \<Rightarrow> nat \<Rightarrow> 'h listopt \<Rightarrow> crash + int \<times> 'h listopt" where
  "add_from L myList kz cur i s =
     (if i < MAX_LIST_N then
        if kz i = 0 then Inr (- 1, s)
        else andThen (sprintf_into (replicate MAX_CHAR_N 0) (''this is idx '' @ fmt_d (int i))) (\<lambda>nm.
          add_from L myList kz cur (Suc i)
            (acquire (Kmem (kz i)) s
              \<lparr>objs := (objs s)(kz i \<mapsto> \<lparr>ms_name = nm, ms_pid = cur, ms_id = int i\<rparr>),
               links := list_add_tail L (kz i) myList (links s)\<rparr>))
      else Inr (0, s))"
  by pat_completeness auto
termination
  by (relation "measure (\<lambda>(L, myList, kz, cur, i, s). MAX_LIST_N - i)") auto

declare add_from.simps [simp del]

definition mylistopt_add_all :: "'h list_ops \<Rightarrow> u64 \<Rightarrow> (nat \<Rightarrow> u64) \<Rightarrow> int \<Rightarrow> 'h listopt \<Rightarrow> crash + int \<times> 'h listopt" where
  "mylistopt_add_all L myList kz cur s = add_from L myList kz cur 0 s"

definition print_line :: "my_struct \<Rightarrow> string" where
  "print_line m = ''id:'' @ fmt_d (ms_id m) @ '', pid='' @ fmt_d (ms_pid m) @ '', name:'' @ string_at (ms_name m)"

definition print_body :: "u64 \<Rightarrow> 'h listopt \<Rightarrow> crash + 'h listopt" where
  "print_body pos s =
     (case objs s pos of
        None \<Rightarrow> Inl Use_after_free
      | Some m \<Rightarrow> Inr (s\<lparr>klog := klog s @ [print_line m]\<rparr>))"

definition mylistopt_print :: "'h list_ops \<Rightarrow> u64 \<Rightarrow> 'h listopt \<Rightarrow> crash + int \<times> 'h listopt" where
  "mylistopt_print L myList s =
     andThen (list_for_each L links myList print_body s) (\<lambda>s'. Inr (0, s'))"

definition del_body :: "'h list_ops \<Rightarrow> int \<Rightarrow> int \<Rightarrow> u64 \<Rightarrow> 'h listopt \<Rightarrow> crash + 'h listopt" where
  "del_body L i del_all p s =
     (case objs s p of
        None \<Rightarrow> Inl Use_after_free
      | Some m \<Rightarrow>
          if i = ms_id m \<or> del_all = 1 then
            release (Kmem p) (s\<lparr>links := list_del L p (links s), objs := (objs s)(p := None),
              klog := klog s @ [''del: id='' @ fmt_d (ms_id m) @ '', name:'' @ string_at (ms_name m)]\<rparr>)
          else Inr s)"

definition mylistopt_del :: "'h list_ops \<Rightarrow> u64 \<Rightarrow> int \<Rightarrow> int \<Rightarrow> 'h listopt \<Rightarrow> crash + int \<times> 'h listopt" where
  "mylistopt_del L myList i del_all s =
     andThen (list_for_each_safe L links myList (del_body L i del_all) s) (\<lambda>s'. Inr (0, s'))"

text \<open>The pruning loop of \<^verbatim>\<open>mylistopt_init\<close>, from index \<open>i\<close> on.\<close>

function del_odd_from :: "'h list_ops \<Rightarrow> u64 \<Rightarrow> nat \<Rightarrow> 'h listopt \<Rightarrow> crash + 'h listopt" where
  "del_odd_from L myList i s =
     (if i < MAX_LIST_N then
        if i mod 2 = 1
        then andThen (mylistopt_del L myList (int i) 0 s) (\<lambda>(_, s'). del_odd_from L myList (Suc i) s')
        else del_odd_from L myList (Suc i) s
      else Inr s)"
  by pat_completeness auto
termination
  by (relation "measure (\<lambda>(L, myList, i, s). MAX_LIST_N - i)") auto

declare del_odd_from.simps [simp del]

text \<open>\<^verbatim>\<open>IS_ERR\<close> and \<^verbatim>\<open>PTR_ERR\<close> of \<^verbatim>\<open>linux/err.h\<close>: the last 4095 addresses are error codes.\<close>

definition IS_ERR :: "u64 \<Rightarrow> bool" where
  "IS_ERR p \<longleftrightarrow> p \<ge> - 4095"

definition PTR_ERR :: "u64 \<Rightarrow> int" where
  "PTR_ERR p = sint p"

text \<open>The answers of the kernel that \<^verbatim>\<open>mylistopt_init\<close> depends on.\<close>

record listopt_env =
  kzalloc :: "nat \<Rightarrow> u64"
  current_pid :: int
  kthread_create :: u64

definition mylistopt_init ::
  "'h list_ops \<Rightarrow> u64 \<Rightarrow> listopt_env \<Rightarrow> 'h listopt \<Rightarrow> crash + int \<times> 'h listopt" where
  "mylistopt_init L myList e s =
     andThen (mylistopt_add_all L myList (kzalloc e) (current_pid e) s) (\<lambda>(_, s1).
     andThen (mylistopt_print L myList s1) (\<lambda>(_, s2).
     andThen (del_odd_from L myList 0 s2) (\<lambda>s3.
     andThen (mylistopt_print L myList s3) (\<lambda>(_, s4).
       if IS_ERR (kthread_create e)
       then Inr (PTR_ERR (kthread_create e), s4\<lparr>my_kernel_task := 0\<rparr>)
       else Inr (0, acquire (Kthread (kthread_create e)) (s4\<lparr>my_kernel_task := kthread_create e\<rparr>))))))"

definition mylistopt_exit :: "'h list_ops \<Rightarrow> u64 \<Rightarrow> 'h listopt \<Rightarrow> crash + 'h listopt" where
  "mylistopt_exit L myList s =
     andThen (mylistopt_del L myList 0 1 s) (\<lambda>(_, s1).
     andThen (mylistopt_print L myList s1) (\<lambda>(_, s2).
       if my_kernel_task s2 \<noteq> 0
       then andThen (release (Kthread (my_kernel_task s2)) s2) (\<lambda>s3. Inr (s3\<lparr>my_kernel_task := 0\<rparr>))
       else Inr s2))"

text \<open>While the module is loaded its thread makes passes; nothing else runs.\<close>

inductive listopt_step :: "'h listopt \<Rightarrow> 'h listopt \<Rightarrow> bool" where
  thread_pass: "listopt_step s (s\<lparr>entry_times := entry_times s + 1\<rparr>)"

section \<open>What the module maintains\<close>

text \<open>The object that iteration \<open>i\<close> of \<^verbatim>\<open>mylistopt_add_all\<close> builds.\<close>

definition entry :: "int \<Rightarrow> nat \<Rightarrow> my_struct" where
  "entry cur i =
     \<lparr>ms_name = buf_put (replicate MAX_CHAR_N 0) 0 (cstr (''this is idx '' @ fmt_d (int i))),
      ms_pid = cur, ms_id = int i\<rparr>"

text \<open>The list holds exactly the live objects, and the module holds their memory and \<open>base\<close>.\<close>

definition listopt_inv ::
  "('h \<Rightarrow> u64 \<Rightarrow> u64 list \<Rightarrow> bool) \<Rightarrow> u64 \<Rightarrow> resource multiset \<Rightarrow> u64 list \<Rightarrow> 'h listopt \<Rightarrow> bool" where
  "listopt_inv is_l myList base xs s \<longleftrightarrow>
     is_l (links s) myList xs \<and> dom (objs s) = set xs \<and>
     mset (held s) = image_mset Kmem (mset xs) + base"

text \<open>The allocator's law for the first \<open>k\<close> allocations: non-null addresses that differ from each
  other, from the list head and from every live object.\<close>

definition allocs_ok :: "u64 \<Rightarrow> (nat \<Rightarrow> u64) \<Rightarrow> nat \<Rightarrow> 'h listopt \<Rightarrow> bool" where
  "allocs_ok myList kz k s \<longleftrightarrow>
     distinct (map kz [0..<k]) \<and> (\<forall>p \<in> set (map kz [0..<k]). p \<noteq> 0 \<and> p \<noteq> myList \<and> objs s p = None)"

text \<open>The state of a loaded module, above the resources \<open>base\<close> that were held before.\<close>

definition listopt_loaded ::
  "('h \<Rightarrow> u64 \<Rightarrow> u64 list \<Rightarrow> bool) \<Rightarrow> u64 \<Rightarrow> resource multiset \<Rightarrow> 'h listopt \<Rightarrow> bool" where
  "listopt_loaded is_l myList base s \<longleftrightarrow>
     my_kernel_task s \<noteq> 0 \<and>
     (\<exists>xs. listopt_inv is_l myList (add_mset (Kthread (my_kernel_task s)) base) xs s)"

text \<open>When \<^verbatim>\<open>insmod\<close> is expected to succeed: the list is empty, the allocator keeps its law up to the
  first allocation that fails (if one does), and a thread can be created.\<close>

definition listopt_env_ok ::
  "('h \<Rightarrow> u64 \<Rightarrow> u64 list \<Rightarrow> bool) \<Rightarrow> u64 \<Rightarrow> listopt_env \<Rightarrow> 'h listopt \<Rightarrow> bool" where
  "listopt_env_ok is_l myList e s \<longleftrightarrow>
     listopt_inv is_l myList (mset (held s)) [] s \<and>
     (\<exists>k \<le> MAX_LIST_N. (k = MAX_LIST_N \<or> kzalloc e k = 0) \<and> allocs_ok myList (kzalloc e) k s) \<and>
     kthread_create e \<noteq> 0 \<and> \<not> IS_ERR (kthread_create e)"

text \<open>A freshly loaded module and an environment in which the first three allocations succeed, for the
  witnesses.\<close>

definition lo_start :: "dlinks listopt" where
  "lo_start = \<lparr>held = [], links = dl_empty, objs = Map.empty, my_kernel_task = 0, entry_times = 0, klog = []\<rparr>"

definition lo_env :: "u64 \<Rightarrow> listopt_env" where
  "lo_env t = \<lparr>kzalloc = (\<lambda>i. if i < 3 then of_nat (16 * (i + 1)) else 0), current_pid = 77, kthread_create = t\<rparr>"

text \<open>Three entries in the list, with ids 0, 1 and 2.\<close>

definition lo_three :: "dlinks listopt" where
  "lo_three = lo_start\<lparr>held := [Kmem 0x10, Kmem 0x20, Kmem 0x30],
     links := dl_add_tail 0x30 8 (dl_add_tail 0x20 8 (dl_add_tail 0x10 8 dl_empty)),
     objs := [0x10 \<mapsto> entry 77 0, 0x20 \<mapsto> entry 77 1, 0x30 \<mapsto> entry 77 2]\<rparr>"

section \<open>Lemmas\<close>

lemma idx_name_fits: "i < MAX_LIST_N \<Longrightarrow> Suc (length (''this is idx '' @ fmt_d (int i))) \<le> MAX_CHAR_N"
  using length_fmt_u_le [of i 2] by (simp add: fmt_d_def MAX_LIST_N_def MAX_CHAR_N_def)

lemma string_at_entry: "string_at (ms_name (entry cur i)) = ''this is idx '' @ fmt_d (int i)"
  by (simp add: entry_def string_at_put fmt_d_def fmt_u_no_nul)

lemma add_from_unfold:
  "i < MAX_LIST_N \<Longrightarrow> kz i \<noteq> 0 \<Longrightarrow> add_from L myList kz cur i s =
     add_from L myList kz cur (Suc i)
       (acquire (Kmem (kz i)) s
         \<lparr>objs := (objs s)(kz i \<mapsto> entry cur i), links := list_add_tail L (kz i) myList (links s)\<rparr>)"
  using idx_name_fits [of i] by (simp add: add_from.simps [of L myList kz cur i] sprintf_into_fits entry_def)

lemma distinct_nth_upt: "distinct (map f [0..<k]) \<Longrightarrow> i < k \<Longrightarrow> j < k \<Longrightarrow> f i = f j \<longleftrightarrow> i = j"
  by (auto simp: distinct_map inj_on_def)

context klist
begin

text \<open>Filling: the first \<open>k\<close> allocations succeed, and the next one, if there is one, fails.\<close>

lemma add_from_upto:
  assumes "i \<le> k" and "k \<le> MAX_LIST_N" and "k = MAX_LIST_N \<or> kz k = 0"
    and "listopt_inv is_list myList base (xs @ map kz [0..<i]) s"
    and "distinct (map kz [0..<k])"
    and "\<forall>j<k. kz j \<noteq> 0 \<and> kz j \<noteq> myList \<and> kz j \<notin> set xs"
    and "\<forall>j<i. objs s (kz j) = Some (entry cur j)"
  shows "\<exists>s'. add_from L myList kz cur i s = Inr (if k = MAX_LIST_N then 0 else - 1, s')
    \<and> listopt_inv is_list myList base (xs @ map kz [0..<k]) s'
    \<and> (\<forall>j<k. objs s' (kz j) = Some (entry cur j)) \<and> my_kernel_task s' = my_kernel_task s"
  using assms
proof (induction "k - i" arbitrary: i s)
  case 0
  then have "i = k" by simp
  with 0 show ?case by (auto simp: add_from.simps [of L myList kz cur k])
next
  case (Suc d)
  then have i: "i < k" "i < MAX_LIST_N" and kz: "kz i \<noteq> 0" by auto
  let ?s = "acquire (Kmem (kz i)) s
    \<lparr>objs := (objs s)(kz i \<mapsto> entry cur i), links := list_add_tail L (kz i) myList (links s)\<rparr>"
  have new: "kz i \<notin> set (myList # xs @ map kz [0..<i])"
    using Suc.prems(5,6) i by (auto simp: distinct_nth_upt)
  have ne: "kz j \<noteq> kz i" if "j < i" for j
    using distinct_nth_upt [OF Suc.prems(5)] i that by auto
  have objs: "\<forall>j<Suc i. objs ?s (kz j) = Some (entry cur j)"
    using Suc.prems(7) ne by (auto simp: less_Suc_eq)
  have "listopt_inv is_list myList base (xs @ map kz [0..<Suc i]) ?s"
    using Suc.prems(4) is_list_add_tail [OF _ new, of "links s"]
    by (auto simp: listopt_inv_def acquire_def)
  with Suc.hyps Suc.prems i objs
  have "\<exists>s'. add_from L myList kz cur (Suc i) ?s = Inr (if k = MAX_LIST_N then 0 else - 1, s')
    \<and> listopt_inv is_list myList base (xs @ map kz [0..<k]) s'
    \<and> (\<forall>j<k. objs s' (kz j) = Some (entry cur j)) \<and> my_kernel_task s' = my_kernel_task ?s"
    by (intro Suc.hyps(1)) auto
  then show ?case using i kz by (simp add: add_from_unfold acquire_def)
qed

text \<open>Printing visits the live objects in list order and changes only the log.\<close>

lemma each_print:
  "set xs \<subseteq> dom (objs s) \<Longrightarrow>
   each print_body xs s = Inr (s\<lparr>klog := klog s @ map (\<lambda>p. print_line (the (objs s p))) xs\<rparr>)"
proof (induction xs arbitrary: s)
  case Nil
  then show ?case by simp
next
  case (Cons x xs)
  then show ?case by (auto simp: print_body_def split: option.splits)
qed

lemma print_result:
  assumes "listopt_inv is_list myList base xs s"
  shows "mylistopt_print L myList s =
    Inr (0, s\<lparr>klog := klog s @ map (\<lambda>p. print_line (the (objs s p))) xs\<rparr>)"
proof -
  have "list_for_each L links myList print_body s = each print_body xs s"
    by (rule list_for_each_each [of "\<lambda>s. is_list (links s) myList xs"])
      (use assms in \<open>auto simp: listopt_inv_def print_body_def split: option.splits\<close>)
  then show ?thesis using assms by (simp add: mylistopt_print_def each_print listopt_inv_def)
qed

text \<open>Deleting unlinks, frees and forgets exactly the matching objects.\<close>

lemma del_body_step:
  fixes i a :: int
  assumes "listopt_inv is_list myList base (kept @ x # xs) s"
  defines "hit \<equiv> i = ms_id (the (objs s x)) \<or> a = 1"
  shows "\<exists>s'. del_body L i a x s = Inr s'
    \<and> listopt_inv is_list myList base ((if hit then kept else kept @ [x]) @ xs) s'
    \<and> objs s' = (if hit then (objs s)(x := None) else objs s) \<and> my_kernel_task s' = my_kernel_task s"
proof -
  have l: "is_list (links s) myList (kept @ x # xs)" and d: "dom (objs s) = set (kept @ x # xs)"
    using assms(1) by (auto simp: listopt_inv_def)
  obtain m where m: "objs s x = Some m" using d by (auto simp: dom_def)
  show ?thesis
  proof (cases hit)
    case False
    then show ?thesis using assms(1) m by (simp add: del_body_def hit_def)
  next
    case True
    have dist: "distinct (kept @ x # xs)" using is_list_distinct [OF l] by simp
    let ?s = "s\<lparr>links := list_del L x (links s), objs := (objs s)(x := None),
      klog := klog s @ [''del: id='' @ fmt_d (ms_id m) @ '', name:'' @ string_at (ms_name m)],
      held := remove1 (Kmem x) (held s)\<rparr>"
    have "Kmem x \<in># mset (held s)" using assms(1) by (simp add: listopt_inv_def)
    then have "del_body L i a x s = Inr ?s"
      using True m by (simp add: del_body_def release_def hit_def)
    moreover have "listopt_inv is_list myList base (kept @ xs) ?s"
      using assms(1) is_list_del [OF l] d dist by (auto simp: listopt_inv_def)
    ultimately show ?thesis using True by simp
  qed
qed

lemma each_del:
  assumes "listopt_inv is_list myList base (kept @ xs) s" and "distinct (kept @ xs)"
  shows "\<exists>s'. each (del_body L i a) xs s = Inr s'
    \<and> listopt_inv is_list myList base (kept @ filter (\<lambda>p. \<not> (i = ms_id (the (objs s p)) \<or> a = 1)) xs) s'
    \<and> (\<forall>p \<in> dom (objs s'). objs s' p = objs s p) \<and> my_kernel_task s' = my_kernel_task s"
  using assms
proof (induction xs arbitrary: kept s)
  case Nil
  then show ?case by auto
next
  case (Cons x xs)
  let ?hit = "i = ms_id (the (objs s x)) \<or> a = 1"
  let ?kept = "if ?hit then kept else kept @ [x]"
  obtain s1 where s1: "del_body L i a x s = Inr s1" "listopt_inv is_list myList base (?kept @ xs) s1"
    and o1: "objs s1 = (if ?hit then (objs s)(x := None) else objs s)" "my_kernel_task s1 = my_kernel_task s"
    using del_body_step [OF Cons.prems(1), of i a] by blast
  have same: "filter (\<lambda>p. \<not> (i = ms_id (the (objs s1 p)) \<or> a = 1)) xs
    = filter (\<lambda>p. \<not> (i = ms_id (the (objs s p)) \<or> a = 1)) xs"
    using Cons.prems(2) o1 by (intro filter_cong) auto
  have "distinct (?kept @ xs)" using Cons.prems(2) by auto
  from Cons.IH [OF s1(2) this] obtain s' where "each (del_body L i a) xs s1 = Inr s'"
    "listopt_inv is_list myList base (?kept @ filter (\<lambda>p. \<not> (i = ms_id (the (objs s p)) \<or> a = 1)) xs) s'"
    "\<forall>p \<in> dom (objs s'). objs s' p = objs s1 p" "my_kernel_task s' = my_kernel_task s1"
    unfolding same by blast
  with s1(1) o1 show ?case by (cases ?hit) (fastforce split: if_splits)+
qed

lemma del_result:
  assumes "listopt_inv is_list myList base xs s"
  shows "\<exists>s'. mylistopt_del L myList i a s = Inr (0, s')
    \<and> listopt_inv is_list myList base (filter (\<lambda>p. \<not> (i = ms_id (the (objs s p)) \<or> a = 1)) xs) s'
    \<and> (\<forall>p \<in> dom (objs s'). objs s' p = objs s p) \<and> my_kernel_task s' = my_kernel_task s"
proof -
  let ?I = "\<lambda>kept rem s. listopt_inv is_list myList base (kept @ rem) s"
  have "list_for_each_safe L links myList (del_body L i a) s = each (del_body L i a) xs s"
  proof (rule list_for_each_safe_each [of ?I])
    show "\<exists>kept'. ?I kept' rem s'" if "?I kept (x # rem) s" and "del_body L i a x s = Inr s'"
      for kept x rem s s'
      using del_body_step [OF that(1), of i a] that(2) by auto
  qed (use assms in \<open>simp_all add: listopt_inv_def\<close>)
  moreover have "distinct ([] @ xs)" using assms is_list_distinct by (fastforce simp: listopt_inv_def)
  ultimately show ?thesis
    using each_del [of myList base "[]" xs s i a] assms by (fastforce simp: mylistopt_del_def)
qed

text \<open>The pruning loop, from index \<open>i\<close> on: what is left are the even entries.\<close>

lemma del_odd_result:
  assumes "i \<le> MAX_LIST_N" and "k \<le> MAX_LIST_N"
    and "listopt_inv is_list myList base (map kz (filter (\<lambda>j. even j \<or> i \<le> j) [0..<k])) s"
    and "\<forall>j<k. even j \<or> i \<le> j \<longrightarrow> objs s (kz j) = Some (entry cur j)"
  shows "\<exists>s'. del_odd_from L myList i s = Inr s'
    \<and> listopt_inv is_list myList base (map kz (filter even [0..<k])) s'
    \<and> (\<forall>j<k. even j \<longrightarrow> objs s' (kz j) = Some (entry cur j)) \<and> my_kernel_task s' = my_kernel_task s"
  using assms
proof (induction "MAX_LIST_N - i" arbitrary: i s)
  case 0
  then have "filter (\<lambda>j. even j \<or> i \<le> j) [0..<k] = filter even [0..<k]"
    by (intro filter_cong) auto
  with 0 show ?case by (simp add: del_odd_from.simps [of L myList MAX_LIST_N])
next
  case (Suc d)
  then have i: "i < MAX_LIST_N" by simp
  let ?F = "filter (\<lambda>j. even j \<or> Suc i \<le> j) [0..<k]"
  show ?case
  proof (cases "even i")
    case True
    have "filter (\<lambda>j. even j \<or> i \<le> j) [0..<k] = ?F"
      using True by (intro filter_cong) (auto simp: Suc_le_eq le_less)
    with Suc.hyps(1) [of "Suc i" s] Suc.hyps(2) Suc.prems i True show ?thesis
      by (auto simp: del_odd_from.simps [of L myList i] even_iff_mod_2_eq_zero)
  next
    case False
    have F: "filter (\<lambda>p. \<not> (int i = ms_id (the (objs s p)) \<or> (0::int) = 1))
        (map kz (filter (\<lambda>j. even j \<or> i \<le> j) [0..<k])) = map kz ?F"
      using Suc.prems(4) False
      by (auto simp: filter_map entry_def o_def Suc_le_eq le_less intro!: arg_cong [of _ _ "map kz"] filter_cong)
    obtain s1 where s1: "mylistopt_del L myList (int i) 0 s = Inr (0, s1)"
      "listopt_inv is_list myList base (map kz ?F) s1"
      "\<forall>p \<in> dom (objs s1). objs s1 p = objs s p" "my_kernel_task s1 = my_kernel_task s"
      using del_result [OF Suc.prems(3), of "int i" 0] unfolding F by blast
    have "objs s1 (kz j) = Some (entry cur j)" if "j < k" "even j \<or> Suc i \<le> j" for j
    proof -
      have "kz j \<in> dom (objs s1)" using that s1(2) by (auto simp: listopt_inv_def)
      then show ?thesis using s1(3) Suc.prems(4) that by auto
    qed
    with Suc.hyps(1) [of "Suc i" s1] Suc.hyps(2) Suc.prems(2) i s1 False show ?thesis
      by (auto simp: del_odd_from.simps [of L myList i] odd_iff_mod_2_eq_one)
  qed
qed

lemma add_all_result:
  assumes "listopt_inv is_list myList base [] s" and "allocs_ok myList kz k s"
    and "k \<le> MAX_LIST_N" and "k = MAX_LIST_N \<or> kz k = 0"
  shows "\<exists>s'. mylistopt_add_all L myList kz cur s = Inr (if k = MAX_LIST_N then 0 else - 1, s')
    \<and> listopt_inv is_list myList base (map kz [0..<k]) s'
    \<and> (\<forall>j<k. objs s' (kz j) = Some (entry cur j)) \<and> my_kernel_task s' = my_kernel_task s"
  using add_from_upto [of 0 k kz myList base "[]" s cur] assms
  by (auto simp: mylistopt_add_all_def allocs_ok_def)

lemma init_result:
  assumes "listopt_inv is_list myList base [] s" and "allocs_ok myList (kzalloc e) k s"
    and "k \<le> MAX_LIST_N" and "k = MAX_LIST_N \<or> kzalloc e k = 0"
  defines "t \<equiv> kthread_create e"
  shows "\<exists>s'. mylistopt_init L myList e s = Inr (if IS_ERR t then PTR_ERR t else 0, s')
    \<and> listopt_inv is_list myList (if IS_ERR t then base else add_mset (Kthread t) base)
        (map (kzalloc e) (filter even [0..<k])) s'
    \<and> (\<forall>j<k. even j \<longrightarrow> objs s' (kzalloc e j) = Some (entry (current_pid e) j))
    \<and> my_kernel_task s' = (if IS_ERR t then 0 else t)"
proof -
  obtain r1 s1 where s1: "mylistopt_add_all L myList (kzalloc e) (current_pid e) s = Inr (r1, s1)"
    "listopt_inv is_list myList base (map (kzalloc e) [0..<k]) s1"
    "\<forall>j<k. objs s1 (kzalloc e j) = Some (entry (current_pid e) j)"
    using add_all_result [OF assms(1-4)] by blast
  define s2 where "s2 = s1\<lparr>klog := klog s1 @ map (\<lambda>p. print_line (the (objs s1 p))) (map (kzalloc e) [0..<k])\<rparr>"
  have s2: "mylistopt_print L myList s1 = Inr (0, s2)" unfolding s2_def by (rule print_result [OF s1(2)])
  obtain s3 where s3: "del_odd_from L myList 0 s2 = Inr s3"
    "listopt_inv is_list myList base (map (kzalloc e) (filter even [0..<k])) s3"
    "\<forall>j<k. even j \<longrightarrow> objs s3 (kzalloc e j) = Some (entry (current_pid e) j)"
    using del_odd_result [of 0 k myList base "kzalloc e" s2 "current_pid e"] assms(3) s1(2,3)
    by (auto simp: s2_def listopt_inv_def)
  show ?thesis
    using s1(1) s2 s3 print_result [OF s3(2)]
    by (auto simp: mylistopt_init_def t_def listopt_inv_def acquire_def)
qed

lemma exit_result:
  assumes "listopt_loaded is_list myList base s"
  shows "\<exists>s'. mylistopt_exit L myList s = Inr s' \<and> listopt_inv is_list myList base [] s'
    \<and> objs s' = Map.empty \<and> my_kernel_task s' = 0"
proof -
  obtain xs where t: "my_kernel_task s \<noteq> 0"
    and inv: "listopt_inv is_list myList (add_mset (Kthread (my_kernel_task s)) base) xs s"
    using assms by (auto simp: listopt_loaded_def)
  obtain s1 where s1: "mylistopt_del L myList 0 1 s = Inr (0, s1)"
    "listopt_inv is_list myList (add_mset (Kthread (my_kernel_task s)) base) [] s1"
    "my_kernel_task s1 = my_kernel_task s"
    using del_result [OF inv, of 0 1] by auto
  have "Kthread (my_kernel_task s) \<in># mset (held s1)" using s1(2) by (simp add: listopt_inv_def)
  then show ?thesis
    using s1 t print_result [OF s1(2)]
    by (auto simp: mylistopt_exit_def listopt_inv_def release_def)
qed

end

text \<open>The thread counts its passes and returns at the first one that is told to stop.\<close>

lemma thread_from_stops:
  "stop (k + n) \<Longrightarrow> (\<forall>j<n. \<not> stop (k + j)) \<Longrightarrow>
   thread_from stop k s = Some (Inr (0, s\<lparr>entry_times := entry_times s + of_nat n\<rparr>))"
proof (induction n arbitrary: k s)
  case 0
  then show ?case by (simp add: thread_from.simps)
next
  case (Suc n)
  then have "\<not> stop k" by force
  moreover have "\<forall>j<n. \<not> stop (Suc k + j)" using Suc.prems(2) by (metis Suc_less_eq add_Suc_shift)
  ultimately show ?case
    using Suc.IH [of "Suc k"] Suc.prems(1) by (simp add: thread_from.simps [of stop k] add.assoc)
qed

lemma listopt_loadedI:
  "my_kernel_task s \<noteq> 0 \<Longrightarrow>
   listopt_inv is_l myList (add_mset (Kthread (my_kernel_task s)) base) xs s \<Longrightarrow>
   listopt_loaded is_l myList base s"
  by (auto simp: listopt_loaded_def)

interpretation lo: kmodule "\<lambda>s. mset (held s)" "listopt_env_ok dl_list myList" "mylistopt_init dl_ops myList"
  listopt_step "mylistopt_exit dl_ops myList" "listopt_loaded dl_list myList" for myList
proof unfold_locales
  fix e and s :: "dlinks listopt"
  assume env: "listopt_env_ok dl_list myList e s"
  then obtain k where k: "k \<le> MAX_LIST_N" "k = MAX_LIST_N \<or> kzalloc e k = 0"
    "allocs_ok myList (kzalloc e) k s" "listopt_inv dl_list myList (mset (held s)) [] s"
    by (auto simp: listopt_env_ok_def)
  have t: "kthread_create e \<noteq> 0" "\<not> IS_ERR (kthread_create e)"
    using env by (simp_all add: listopt_env_ok_def)
  obtain s' where s': "mylistopt_init dl_ops myList e s = Inr (0, s')"
    and task: "my_kernel_task s' = kthread_create e"
    and inv: "listopt_inv dl_list myList (add_mset (Kthread (kthread_create e)) (mset (held s)))
      (map (kzalloc e) (filter even [0..<k])) s'"
    using dl.init_result [OF k(4,3,1,2)] t by auto
  have loaded: "listopt_loaded dl_list myList (mset (held s)) s'"
    using listopt_loadedI [of s'] task inv t by auto
  show "\<exists>r s'. mylistopt_init dl_ops myList e s = Inr (r, s')" using s' by blast
  show "mset (held t) = mset (held s)" if "mylistopt_init dl_ops myList e s = Inr (r, t)" "r \<noteq> 0" for r t
    using that s' by simp
  show "listopt_loaded dl_list myList (mset (held s)) t"
    if "mylistopt_init dl_ops myList e s = Inr (0, t)" for t
    using that s' loaded by simp
next
  show "listopt_loaded dl_list myList base s'"
    if "listopt_loaded dl_list myList base s" "listopt_step s s'" for base and s s' :: "dlinks listopt"
    using that by (auto elim!: listopt_step.cases simp: listopt_loaded_def listopt_inv_def)
  show "\<exists>s'. mylistopt_exit dl_ops myList s = Inr s' \<and> mset (held s') = base"
    if "listopt_loaded dl_list myList base s" for base and s :: "dlinks listopt"
    using dl.exit_result [OF that] by (auto simp: listopt_inv_def)
qed

section \<open>Properties\<close>

text \<open>C5. Loading the module, with a thread that can be created and an allocator that keeps its law for the
  first \<open>k\<close> allocations (all 100, or up to the first failure): every traversal returns, no freed object
  is touched, no name overflows its 50 bytes, and afterwards the list holds exactly the even-numbered
  objects in order, each with its index, the loader's pid and the name built from the index; every
  other object has been freed.\<close>

theorem mylistopt_init_even:
  assumes "klist L is_l" and "listopt_inv is_l myList base [] s"
    and "allocs_ok myList (kzalloc e) k s" and "k \<le> MAX_LIST_N" and "k = MAX_LIST_N \<or> kzalloc e k = 0"
    and "\<not> IS_ERR (kthread_create e)"
  defines "left \<equiv> map (kzalloc e) (filter even [0..<k])"
  shows "\<exists>s'. mylistopt_init L myList e s = Inr (0, s')
    \<and> is_l (links s') myList left \<and> dom (objs s') = set left
    \<and> mset (held s') = image_mset Kmem (mset left) + add_mset (Kthread (kthread_create e)) base
    \<and> (\<forall>j<k. even j \<longrightarrow> (\<exists>m. objs s' (kzalloc e j) = Some m \<and> ms_id m = int j
          \<and> ms_pid m = current_pid e \<and> string_at (ms_name m) = ''this is idx '' @ fmt_d (int j)))"
proof -
  obtain s' where "mylistopt_init L myList e s = Inr (0, s')"
    "listopt_inv is_l myList (add_mset (Kthread (kthread_create e)) base) left s'"
    "\<forall>j<k. even j \<longrightarrow> objs s' (kzalloc e j) = Some (entry (current_pid e) j)"
    using klist.init_result [OF assms(1-5)] assms(6) by (auto simp: left_def)
  moreover have "ms_id (entry c j) = int j" "ms_pid (entry c j) = c" for c j
    by (simp_all add: entry_def)
  ultimately show ?thesis by (auto simp: listopt_inv_def string_at_entry)
qed

text \<open>C14. Deleting by id (or everything, with \<open>del_all = 1\<close>) returns, unlinks and frees exactly the matching
  objects, keeps the others and their order, and gives back exactly their memory.\<close>

theorem mylistopt_del_filter:
  fixes i del_all :: int
  assumes "klist L is_l" and "listopt_inv is_l myList base xs s"
  defines "ys \<equiv> filter (\<lambda>p. \<not> (i = ms_id (the (objs s p)) \<or> del_all = 1)) xs"
  shows "\<exists>s'. mylistopt_del L myList i del_all s = Inr (0, s') \<and> is_l (links s') myList ys
    \<and> objs s' = objs s |` set ys \<and> mset (held s') = image_mset Kmem (mset ys) + base"
proof -
  obtain s' where s': "mylistopt_del L myList i del_all s = Inr (0, s')"
    "listopt_inv is_l myList base ys s'" "\<forall>p \<in> dom (objs s'). objs s' p = objs s p"
    using klist.del_result [OF assms(1,2)] unfolding ys_def by blast
  have d: "dom (objs s') = set ys" using s'(2) by (simp add: listopt_inv_def)
  have "objs s' p = (objs s |` set ys) p" for p
  proof (cases "p \<in> set ys")
    case True
    then show ?thesis using s'(3) d by simp
  next
    case False
    then have "p \<notin> dom (objs s')" using d by simp
    then show ?thesis using False by (simp add: domIff)
  qed
  then have "objs s' = objs s |` set ys" by blast
  with s' show ?thesis by (auto simp: listopt_inv_def)
qed

text \<open>Any number of load and unload cycles, with the thread running in between, leaves the ledger of
  kernel resources as it was.\<close>

lemma listopt_lifetimes:
  assumes "(lifetime (listopt_env_ok dl_list myList) (mylistopt_init dl_ops myList) listopt_step
      (mylistopt_exit dl_ops myList))\<^sup>*\<^sup>* s s'"
  shows "mset (held s') = mset (held s)"
  using assms by (rule lo.lifetimes_balanced)

text \<open>When the thread cannot be created, \<^verbatim>\<open>mylistopt_init\<close> returns the error but leaves the list and the
  memory of its objects behind: the kernel then discards the module and nothing can free them.\<close>

theorem mylistopt_init_leaks:
  assumes "klist L is_l" and "listopt_inv is_l myList base [] s"
    and "allocs_ok myList (kzalloc e) k s" and "k \<le> MAX_LIST_N" and "k = MAX_LIST_N \<or> kzalloc e k = 0"
    and "IS_ERR (kthread_create e)"
  shows "\<exists>s'. mylistopt_init L myList e s = Inr (PTR_ERR (kthread_create e), s')
    \<and> mset (held s') = image_mset Kmem (mset (map (kzalloc e) (filter even [0..<k]))) + base"
  using klist.init_result [OF assms(1-5)] assms(6) by (auto simp: listopt_inv_def)

text \<open>The thread returns 0 at the first pass on which it is told to stop, having counted the passes
  before; so a \<^verbatim>\<open>kthread_stop\<close> always ends it.\<close>

theorem mytask_thread_stops:
  assumes "stop n" and "\<forall>j<n. \<not> stop j"
  shows "mytask_thread_func stop s = Inr (0, s\<lparr>entry_times := entry_times s + of_nat n\<rparr>)"
  using thread_from_stops [of stop 0 n s] assms by (simp add: mytask_thread_func_def)

section \<open>Witnesses\<close>

lemma lo_fixture:
  "listopt_inv dl_list 8 {#} [] lo_start" "allocs_ok 8 (kzalloc (lo_env t)) 3 lo_start"
  "(3::nat) \<le> MAX_LIST_N" "(3::nat) = MAX_LIST_N \<or> kzalloc (lo_env t) 3 = 0"
  by (simp_all add: listopt_inv_def lo_start_def lo_env_def dl_list_empty allocs_ok_def
      MAX_LIST_N_def upt_rec)

lemma evens3: "filter even [0..<3] = [0, 2::nat]"
  by (simp add: upt_rec)

lemma lo_start_empty: "mset (held lo_start) = {#}"
  by (simp add: lo_start_def)

theorem mylistopt_init_even_witness:
  "\<exists>s'. mylistopt_init dl_ops 8 (lo_env 0x1000) lo_start = Inr (0, s')
    \<and> dl_list (links s') 8 [0x10, 0x30] \<and> dom (objs s') = {0x10, 0x30}
    \<and> held s' \<noteq> [] \<and> (\<exists>m. objs s' 0x30 = Some m \<and> string_at (ms_name m) = ''this is idx 2'')"
proof -
  have "\<not> IS_ERR (kthread_create (lo_env 0x1000))" by (simp add: lo_env_def IS_ERR_def)
  note init = mylistopt_init_even [OF dl.klist_axioms lo_fixture this, unfolded evens3]
  from init obtain s' where
    s': "mylistopt_init dl_ops 8 (lo_env 0x1000) lo_start = Inr (0, s')"
    and left: "dl_list (links s') 8 (map (kzalloc (lo_env 0x1000)) [0, 2])"
      "dom (objs s') = set (map (kzalloc (lo_env 0x1000)) [0, 2])"
      "mset (held s') = image_mset Kmem (mset (map (kzalloc (lo_env 0x1000)) [0, 2])) +
        add_mset (Kthread (kthread_create (lo_env 0x1000))) {#}"
    and m: "\<forall>j<3. even j \<longrightarrow> (\<exists>m. objs s' (kzalloc (lo_env 0x1000) j) = Some m \<and> ms_id m = int j
      \<and> ms_pid m = current_pid (lo_env 0x1000) \<and> string_at (ms_name m) = ''this is idx '' @ fmt_d (int j))"
    by blast
  have two: "fmt_d 2 = ''2''" by code_simp
  have "\<exists>m. objs s' 0x30 = Some m \<and> string_at (ms_name m) = ''this is idx 2''"
    using m [rule_format, of 2] two by (auto simp: lo_env_def)
  moreover have "held s' \<noteq> []" using left(3) by auto
  ultimately show ?thesis using s' left(1,2) by (simp add: lo_env_def)
qed

lemma lo_three_inv: "listopt_inv dl_list 8 {#} [0x10, 0x20, 0x30] lo_three"
proof -
  have "dl_list (dl_add_tail 0x10 8 dl_empty) 8 ([] @ [0x10])" by (rule dl_list_add_tail [OF dl_list_empty]) simp
  then have "dl_list (dl_add_tail 0x20 8 (dl_add_tail 0x10 8 dl_empty)) 8 (([] @ [0x10]) @ [0x20])"
    by (rule dl_list_add_tail) simp
  then have "dl_list (dl_add_tail 0x30 8 (dl_add_tail 0x20 8 (dl_add_tail 0x10 8 dl_empty))) 8 ((([] @ [0x10]) @ [0x20]) @ [0x30])"
    by (rule dl_list_add_tail) simp
  then show ?thesis by (auto simp: listopt_inv_def lo_three_def)
qed

theorem mylistopt_del_filter_witness:
  "\<exists>s'. mylistopt_del dl_ops 8 1 0 lo_three = Inr (0, s') \<and> dl_list (links s') 8 [0x10, 0x30]
    \<and> objs s' = [0x10 \<mapsto> entry 77 0, 0x30 \<mapsto> entry 77 2] \<and> mset (held s') = {#Kmem 0x10, Kmem 0x30#}"
proof -
  have left: "filter (\<lambda>p. \<not> (1 = ms_id (the (objs lo_three p)) \<or> (0 :: int) = 1)) [0x10, 0x20, 0x30] = [0x10, 0x30]"
    by (simp add: lo_three_def entry_def)
  have "objs lo_three |` set [0x10, 0x30] = [0x10 \<mapsto> entry 77 0, 0x30 \<mapsto> entry 77 2]"
    by (auto simp: lo_three_def restrict_map_def fun_eq_iff)
  then show ?thesis
    using mylistopt_del_filter [OF dl.klist_axioms lo_three_inv, of 1 0] unfolding left by simp
qed

theorem mylistopt_init_leaks_witness:
  "\<exists>s'. mylistopt_init dl_ops 8 (lo_env (- 12)) lo_start = Inr (- 12, s')
    \<and> mset (held s') = {#Kmem 0x10, Kmem 0x30#}"
proof -
  have "IS_ERR (kthread_create (lo_env (- 12)))" "PTR_ERR (kthread_create (lo_env (- 12))) = - 12"
    by (simp_all add: lo_env_def IS_ERR_def PTR_ERR_def)
  then show ?thesis
    using mylistopt_init_leaks [OF dl.klist_axioms lo_fixture, of "- 12"]
    by (simp add: lo_env_def upt_rec)
qed

theorem mytask_thread_stops_witness:
  "mytask_thread_func (\<lambda>n. 3 \<le> n) lo_start = Inr (0, lo_start\<lparr>entry_times := 3\<rparr>)"
  using mytask_thread_stops [of "\<lambda>n. 3 \<le> n" 3 lo_start] by (simp add: lo_start_def)

lemma listopt_lifetimes_runs:
  "\<exists>s'. lifetime (listopt_env_ok dl_list 8) (mylistopt_init dl_ops 8) listopt_step
      (mylistopt_exit dl_ops 8) lo_start s' \<and> held s' = []"
proof -
  have env: "listopt_env_ok dl_list 8 (lo_env 0x1000) lo_start"
    unfolding listopt_env_ok_def lo_start_empty
    using lo_fixture(1,3) lo_fixture(2) [of "0x1000"] lo_fixture(4) [of "0x1000"]
    by (auto simp: lo_env_def IS_ERR_def)
  obtain s1 where s1: "mylistopt_init dl_ops 8 (lo_env 0x1000) lo_start = Inr (0, s1)"
    using dl.init_result [OF lo_fixture, of "0x1000"] by (auto simp: lo_env_def IS_ERR_def)
  then obtain s' where life: "lifetime (listopt_env_ok dl_list 8) (mylistopt_init dl_ops 8) listopt_step
      (mylistopt_exit dl_ops 8) lo_start s'"
    using lo.lifetime_exists [OF env] by blast
  have "mset (held s') = mset (held lo_start)"
    by (rule listopt_lifetimes [OF r_into_rtranclp, OF life])
  with life show ?thesis by (auto simp: lo_start_def)
qed

end
