(* ===== verification/Taskmods.thy ===== *)
theory Taskmods
  imports Klist Cformat
begin

text \<open>
  Two modules that walk a list the kernel owns: \<^verbatim>\<open>src/code/myrmmod/myrmmod.c\<close>, which drops a reference
  of every module with a given name, and \<^verbatim>\<open>src/code/task_struct/task_struct.c\<close>, which prints the
  interesting fields of every task. The list is abstract (\<open>Klist\<close>) and the objects are found by the
  address of their \<^verbatim>\<open>list\<close> (\<^verbatim>\<open>tasks\<close>) field.
\<close>

section \<open>myrmmod: dropping module references\<close>

definition MODULES :: u64 where
  "MODULES = 0xffffffff87cc0f50"

text \<open>The fields of \<^verbatim>\<open>struct module\<close> that matter here. \<^verbatim>\<open>module_put\<close> and \<^verbatim>\<open>try_module_get\<close> are
  parameters; the latter also says whether it took a reference.\<close>

datatype module_state = MODULE_STATE_LIVE | MODULE_STATE_COMING | MODULE_STATE_GOING | MODULE_STATE_UNFORMED

record kmod =
  mod_name :: string
  mod_state :: module_state
  refcnt :: int

record 'h modlist =
  mod_links :: 'h
  mods :: "u64 \<rightharpoonup> kmod"
  mod_log :: "string list"

definition put_body :: "(kmod \<Rightarrow> kmod) \<Rightarrow> string \<Rightarrow> u64 \<Rightarrow> 'h modlist \<Rightarrow> crash + 'h modlist" where
  "put_body module_put nm pos s =
     (case mods s pos of
        None \<Rightarrow> Inl Bad_access
      | Some p \<Rightarrow>
          let s1 = s\<lparr>mod_log := mod_log s @ [''entry module list ...'']\<rparr>
          in if mod_name p = nm
             then Inr (s1\<lparr>mods := (mods s1)(pos \<mapsto> module_put p),
                          mod_log := mod_log s1 @ [mod_name p @ '' ref is dec'']\<rparr>)
             else Inr s1)"

definition print_module_init ::
  "'h list_ops \<Rightarrow> (kmod \<Rightarrow> kmod) \<Rightarrow> string \<Rightarrow> 'h modlist \<Rightarrow> crash + int \<times> 'h modlist" where
  "print_module_init L module_put nm s =
     andThen (list_for_each L mod_links MODULES (put_body module_put nm)
       (s\<lparr>mod_log := mod_log s @ [''print module init'']\<rparr>)) (\<lambda>s'. Inr (0, s'))"

text \<open>The other half of the module, which is compiled when \<^verbatim>\<open>DEBUG_MODULE\<close> is set: it marks the named module
  as live and takes a reference of it.\<close>

definition get_body :: "(kmod \<Rightarrow> bool \<times> kmod) \<Rightarrow> string \<Rightarrow> u64 \<Rightarrow> 'h modlist \<Rightarrow> crash + 'h modlist" where
  "get_body try_module_get nm pos s =
     (case mods s pos of
        None \<Rightarrow> Inl Bad_access
      | Some p \<Rightarrow>
          if mod_name p = nm then
            let (got, p') = try_module_get (p\<lparr>mod_state := MODULE_STATE_LIVE\<rparr>);
                s1 = s\<lparr>mods := (mods s)(pos \<mapsto> p')\<rparr>;
                s2 = (if \<not> got then s1\<lparr>mod_log := mod_log s1 @ [''try_module_get error'']\<rparr> else s1)
            in Inr (s2\<lparr>mod_log := mod_log s2 @ [mod_name p' @ '' ret is inc'']\<rparr>)
          else Inr s)"

definition print_module_init_get ::
  "'h list_ops \<Rightarrow> (kmod \<Rightarrow> bool \<times> kmod) \<Rightarrow> string \<Rightarrow> 'h modlist \<Rightarrow> crash + int \<times> 'h modlist" where
  "print_module_init_get L try_module_get nm s =
     andThen (list_for_each L mod_links MODULES (get_body try_module_get nm)
       (s\<lparr>mod_log := mod_log s @ [''print module init'']\<rparr>)) (\<lambda>s'. Inr (0, s'))"

definition print_module_exit :: "'h modlist \<Rightarrow> 'h modlist" where
  "print_module_exit s = s\<lparr>mod_log := mod_log s @ [''print module exit'']\<rparr>"

section \<open>task_struct: printing every task\<close>

text \<open>The fields of \<^verbatim>\<open>struct task_struct\<close> the module prints. The pointers \<^verbatim>\<open>files\<close>, \<^verbatim>\<open>fs\<close> and \<^verbatim>\<open>mm\<close> are
  optional: an exiting task has none of them, a kernel thread has no \<^verbatim>\<open>mm\<close>.\<close>

record mm_struct =
  mmap_base :: u64
  total_vm :: int

record task =
  t_pid :: int
  t_state :: u64
  t_prio :: int
  static_prio :: int
  normal_prio :: int
  rt_priority :: int
  parent_pid :: int
  t_comm :: string
  files_count :: "int option"
  fs_umask :: "int option"
  nvcsw :: int
  nivcsw :: int
  t_mm :: "mm_struct option"

record 'h tasklist =
  task_links :: 'h
  tasks :: "u64 \<rightharpoonup> task"
  task_log :: "string list"
  task_cnt :: u32

definition pcb_line :: "task \<Rightarrow> string" where
  "pcb_line p = ''pid: '' @ fmt_d (t_pid p) @ ''; state: '' @ fmt_x 0 (unat (t_state p)) @ '', prio: '' @ fmt_d (t_prio p)
     @ '', static prio: '' @ fmt_d (static_prio p) @ '', normal prio: '' @ fmt_d (normal_prio p)
     @ '', rt prio: '' @ fmt_d (rt_priority p) @ '', parent id: '' @ fmt_d (parent_pid p)"

definition name_line :: "task \<Rightarrow> int \<Rightarrow> int \<Rightarrow> string" where
  "name_line p files umask = ''task name: '' @ t_comm p @ '', files count: '' @ fmt_d files @ '', fs umask: '' @ fmt_d umask
     @ '', nvcsw: '' @ fmt_d (nvcsw p) @ '', nivcsw: '' @ fmt_d (nivcsw p)"

definition mm_line :: "mm_struct \<Rightarrow> string" where
  "mm_line m = ''mm: 0x'' @ fmt_x 0 (unat (mmap_base m)) @ '', total_vm: '' @ fmt_d (total_vm m) @ '' ''"

definition pcb_body :: "u64 \<Rightarrow> 'h tasklist \<Rightarrow> crash + 'h tasklist" where
  "pcb_body pos s =
     (case tasks s pos of
        None \<Rightarrow> Inl Bad_access
      | Some p \<Rightarrow>
          (case (files_count p, fs_umask p) of
             (Some files, Some umask) \<Rightarrow>
               Inr (s\<lparr>task_cnt := task_cnt s + 1,
                      task_log := task_log s @ [[], pcb_line p, name_line p files umask]
                        @ (case t_mm p of None \<Rightarrow> [] | Some m \<Rightarrow> [mm_line m])\<rparr>)
           | _ \<Rightarrow> Inl Null_deref))"

text \<open>\<open>init_task\<close> is the address of the list field of task 0, the head of the list of all tasks.\<close>

definition print_pcb :: "'h list_ops \<Rightarrow> u64 \<Rightarrow> 'h tasklist \<Rightarrow> crash + int \<times> 'h tasklist" where
  "print_pcb L init_task s =
     andThen (list_for_each L task_links init_task pcb_body
       (s\<lparr>task_cnt := 0, task_log := task_log s @ [''begin to print all task: '']\<rparr>)) (\<lambda>s1.
       Inr (0, s1\<lparr>task_log := task_log s1 @ [''total task num: '' @ fmt_d (sint (task_cnt s1))]\<rparr>))"

definition exit_pcb :: "'h tasklist \<Rightarrow> 'h tasklist" where
  "exit_pcb s = s\<lparr>task_log := task_log s @ [''exit print tcb.... '']\<rparr>"

text \<open>What a walk that treats the modules of one name does to a module.\<close>

definition named :: "string \<Rightarrow> (kmod \<Rightarrow> kmod) \<Rightarrow> kmod \<Rightarrow> kmod" where
  "named nm f m = (if mod_name m = nm then f m else m)"

definition treat :: "u64 list \<Rightarrow> (kmod \<Rightarrow> kmod) \<Rightarrow> (u64 \<rightharpoonup> kmod) \<Rightarrow> u64 \<rightharpoonup> kmod" where
  "treat xs f ms = (\<lambda>p. if p \<in> set xs then map_option f (ms p) else ms p)"

text \<open>The lines printed for a task.\<close>

definition task_lines :: "task \<Rightarrow> string list" where
  "task_lines p = [[], pcb_line p, name_line p (the (files_count p)) (the (fs_umask p))]
     @ (case t_mm p of None \<Rightarrow> [] | Some m \<Rightarrow> [mm_line m])"

text \<open>Two tasks as \<^verbatim>\<open>src/code/task_struct/task_struct.log\<close> records them (the first with an address space,
  the second a kernel thread), and two loaded modules, for the witnesses.\<close>

definition systemd :: task where
  "systemd = \<lparr>t_pid = 1, t_state = 1, t_prio = 120, static_prio = 120, normal_prio = 120, rt_priority = 0,
     parent_pid = 0, t_comm = ''systemd'', files_count = Some 1, fs_umask = Some 0, nvcsw = 2370, nivcsw = 4221,
     t_mm = Some \<lparr>mmap_base = 0x7f6d83e9c000, total_vm = 41869\<rparr>\<rparr>"

definition rcu_gp :: task where
  "rcu_gp = \<lparr>t_pid = 3, t_state = 0x402, t_prio = 100, static_prio = 100, normal_prio = 100, rt_priority = 0,
     parent_pid = 2, t_comm = ''rcu_gp'', files_count = Some 171, fs_umask = Some 0, nvcsw = 3, nivcsw = 1,
     t_mm = None\<rparr>"

definition two_tasks :: "task \<Rightarrow> task \<Rightarrow> dlinks tasklist" where
  "two_tasks a b = \<lparr>task_links = dl_add_tail 0x20 8 (dl_add_tail 0x10 8 dl_empty),
     tasks = [0x10 \<mapsto> a, 0x20 \<mapsto> b], task_log = [], task_cnt = 0\<rparr>"

definition two_mods :: "dlinks modlist" where
  "two_mods = \<lparr>mod_links = dl_add_tail 0x20 MODULES (dl_add_tail 0x10 MODULES dl_empty),
     mods = [0x10 \<mapsto> \<lparr>mod_name = ''dram'', mod_state = MODULE_STATE_LIVE, refcnt = 1\<rparr>,
             0x20 \<mapsto> \<lparr>mod_name = ''memmap'', mod_state = MODULE_STATE_GOING, refcnt = 3\<rparr>],
     mod_log = []\<rparr>"

section \<open>Lemmas\<close>

lemma put_body_treats:
  "pos \<in> dom (mods s) \<Longrightarrow>
   \<exists>s'. put_body module_put nm pos s = Inr s' \<and> mod_links s' = mod_links s \<and> mods s' = treat [pos] (named nm module_put) (mods s)"
  by (auto simp: put_body_def Let_def fun_eq_iff treat_def named_def)

lemma get_body_treats:
  "pos \<in> dom (mods s) \<Longrightarrow>
   \<exists>s'. get_body try_module_get nm pos s = Inr s' \<and> mod_links s' = mod_links s
     \<and> mods s' = treat [pos] (named nm (\<lambda>m. snd (try_module_get (m\<lparr>mod_state := MODULE_STATE_LIVE\<rparr>)))) (mods s)"
  by (auto simp: get_body_def Let_def fun_eq_iff treat_def named_def split: prod.split)

text \<open>Both bodies run over a list: every module on it is treated once.\<close>

lemma each_treats:
  assumes "\<And>pos s. pos \<in> dom (mods s) \<Longrightarrow> \<exists>s'. body pos s = Inr s' \<and> mod_links s' = mod_links s \<and> mods s' = treat [pos] f (mods s)"
    and "set xs \<subseteq> dom (mods s)" and "distinct xs"
  shows "\<exists>s'. each body xs s = Inr s' \<and> mod_links s' = mod_links s \<and> mods s' = treat xs f (mods s)"
  using assms(2,3)
proof (induction xs arbitrary: s)
  case Nil
  then show ?case by (simp add: treat_def)
next
  case (Cons x xs)
  obtain s1 where s1: "body x s = Inr s1" "mod_links s1 = mod_links s" "mods s1 = treat [x] f (mods s)"
    using assms(1) [of x s] Cons.prems(1) by auto
  then have "set xs \<subseteq> dom (mods s1)" using Cons.prems(1) by (auto simp: dom_def treat_def)
  from Cons.IH [OF this] Cons.prems(2) s1 show ?case by (auto simp: fun_eq_iff treat_def)
qed

lemma each_pcb:
  assumes "\<forall>p \<in> set xs. \<exists>t. tasks s p = Some t \<and> files_count t \<noteq> None \<and> fs_umask t \<noteq> None"
  shows "each pcb_body xs s = Inr (s\<lparr>task_cnt := task_cnt s + of_nat (length xs),
    task_log := task_log s @ concat (map (\<lambda>p. task_lines (the (tasks s p))) xs)\<rparr>)"
  using assms
proof (induction xs arbitrary: s)
  case Nil
  then show ?case by simp
next
  case (Cons x xs)
  from Cons.prems obtain t where t: "tasks s x = Some t" "files_count t \<noteq> None" "fs_umask t \<noteq> None"
    by auto
  let ?s = "s\<lparr>task_cnt := task_cnt s + 1, task_log := task_log s @ task_lines t\<rparr>"
  have "pcb_body x s = Inr ?s"
    using t by (auto simp: pcb_body_def task_lines_def split: option.splits)
  with Cons.IH [of ?s] Cons.prems t show ?case by (simp add: add.assoc)
qed

lemma each_stops_at_crash:
  "each body xs s = Inr s1 \<Longrightarrow> body x s1 = Inl c \<Longrightarrow> each body (xs @ x # ys) s = Inl c"
  by (simp add: each_append)

context klist
begin

lemma put_traversal:
  assumes "is_list (mod_links s) head xs"
  shows "list_for_each L mod_links head (put_body module_put nm) s = each (put_body module_put nm) xs s"
  by (rule list_for_each_each [of "\<lambda>s. is_list (mod_links s) head xs"])
    (use assms in \<open>auto simp: put_body_def Let_def split: option.splits if_splits\<close>)

lemma get_traversal:
  assumes "is_list (mod_links s) head xs"
  shows "list_for_each L mod_links head (get_body try_module_get nm) s = each (get_body try_module_get nm) xs s"
  by (rule list_for_each_each [of "\<lambda>s. is_list (mod_links s) head xs"])
    (use assms in \<open>auto simp: get_body_def Let_def split: option.splits if_splits prod.splits\<close>)

lemma init_puts:
  assumes "is_list (mod_links s) MODULES xs" and "set xs \<subseteq> dom (mods s)"
  shows "\<exists>s'. print_module_init L module_put nm s = Inr (0, s') \<and> mod_links s' = mod_links s
    \<and> mods s' = treat xs (named nm module_put) (mods s)"
proof -
  let ?s = "s\<lparr>mod_log := mod_log s @ [''print module init'']\<rparr>"
  have "distinct xs" using is_list_distinct [OF assms(1)] by simp
  with each_treats [of "put_body module_put nm", OF put_body_treats, of xs ?s] assms(2)
  show ?thesis using put_traversal [of ?s MODULES xs] assms(1) by (auto simp: print_module_init_def)
qed

lemma init_gets:
  assumes "is_list (mod_links s) MODULES xs" and "set xs \<subseteq> dom (mods s)"
  shows "\<exists>s'. print_module_init_get L try_module_get nm s = Inr (0, s') \<and> mod_links s' = mod_links s
    \<and> mods s' = treat xs (named nm (\<lambda>m. snd (try_module_get (m\<lparr>mod_state := MODULE_STATE_LIVE\<rparr>)))) (mods s)"
proof -
  let ?s = "s\<lparr>mod_log := mod_log s @ [''print module init'']\<rparr>"
  have "distinct xs" using is_list_distinct [OF assms(1)] by simp
  with each_treats [of "get_body try_module_get nm", OF get_body_treats, of xs ?s] assms(2)
  show ?thesis using get_traversal [of ?s MODULES xs] assms(1) by (auto simp: print_module_init_get_def)
qed

lemma pcb_traversal:
  assumes "is_list (task_links s) head xs"
  shows "list_for_each L task_links head pcb_body s = each pcb_body xs s"
  by (rule list_for_each_each [of "\<lambda>s. is_list (task_links s) head xs"])
    (use assms in \<open>auto simp: pcb_body_def split: option.splits\<close>)

end

section \<open>Properties\<close>

text \<open>C20. Loading \<^verbatim>\<open>myrmmod\<close> walks the whole module list and returns; \<^verbatim>\<open>module_put\<close> has been applied exactly
  once to each module whose name is the given one, every other module is as it was, and so are the
  links.\<close>

theorem print_module_init_puts:
  assumes "klist L is_l" and "is_l (mod_links s) MODULES xs" and "set xs \<subseteq> dom (mods s)"
  shows "\<exists>s'. print_module_init L module_put nm s = Inr (0, s') \<and> mod_links s' = mod_links s
    \<and> mods s' = (\<lambda>p. if p \<in> set xs
        then map_option (\<lambda>m. if mod_name m = nm then module_put m else m) (mods s p) else mods s p)"
  using klist.init_puts [OF assms, of module_put nm] by (simp add: treat_def named_def [abs_def])

text \<open>C27. The two builds of the module undo each other: loading the build that takes references and then the one
  that drops them gives every module its reference count back, provided the kernel grants a reference of
  a live module and \<^verbatim>\<open>module_put\<close> drops it. One change stays: the named modules are now marked live,
  whatever their state was.\<close>

theorem get_then_put:
  assumes "klist L is_l" and "is_l (mod_links s) MODULES xs" and "set xs \<subseteq> dom (mods s)"
    and "\<forall>m. mod_state m = MODULE_STATE_LIVE \<longrightarrow> mod_name (snd (try_module_get m)) = mod_name m
      \<and> module_put (snd (try_module_get m)) = m"
  shows "\<exists>s1 s2. print_module_init_get L try_module_get nm s = Inr (0, s1)
    \<and> print_module_init L module_put nm (print_module_exit s1) = Inr (0, s2) \<and> mod_links s2 = mod_links s
    \<and> mods s2 = (\<lambda>p. if p \<in> set xs
        then map_option (\<lambda>m. if mod_name m = nm then m\<lparr>mod_state := MODULE_STATE_LIVE\<rparr> else m) (mods s p) else mods s p)"
proof -
  obtain s1 where s1: "print_module_init_get L try_module_get nm s = Inr (0, s1)" "mod_links s1 = mod_links s"
      "mods s1 = treat xs (named nm (\<lambda>m. snd (try_module_get (m\<lparr>mod_state := MODULE_STATE_LIVE\<rparr>)))) (mods s)"
    using klist.init_gets [OF assms(1-3)] by blast
  have "set xs \<subseteq> dom (mods (print_module_exit s1))"
    using assms(3) s1(3) by (auto simp: print_module_exit_def treat_def dom_def)
  with s1(2) obtain s2 where s2: "print_module_init L module_put nm (print_module_exit s1) = Inr (0, s2)"
      "mod_links s2 = mod_links s" "mods s2 = treat xs (named nm module_put) (mods s1)"
    using klist.init_puts [OF assms(1), of "print_module_exit s1" xs module_put nm] assms(2)
    by (auto simp: print_module_exit_def)
  have "named nm module_put (named nm (\<lambda>m. snd (try_module_get (m\<lparr>mod_state := MODULE_STATE_LIVE\<rparr>))) m)
      = (if mod_name m = nm then m\<lparr>mod_state := MODULE_STATE_LIVE\<rparr> else m)" for m
    using assms(4) by (simp add: named_def)
  then show ?thesis
    using s1(1,3) s2 by (simp add: treat_def option.map_comp comp_def fun_eq_iff)
qed

text \<open>C21. When every task still has its files and fs structures (an exiting task has not, and the module
  crashes on it, which is shown below) and there are fewer than \<^term>\<open>(2::nat) ^ 31\<close> tasks, \<^verbatim>\<open>print_pcb\<close> returns 0 after printing, for
  each task of the list in order, its two lines and the line on its address space if it has one, and
  then the number of tasks.\<close>

theorem print_pcb_lists_tasks:
  assumes "klist L is_l" and "is_l (task_links s) init_task xs" and "length xs < 2 ^ 31"
    and "\<forall>p \<in> set xs. \<exists>t. tasks s p = Some t \<and> files_count t \<noteq> None \<and> fs_umask t \<noteq> None"
  shows "\<exists>s'. print_pcb L init_task s = Inr (0, s') \<and> task_log s' = task_log s
      @ [''begin to print all task: ''] @ concat (map (\<lambda>p. task_lines (the (tasks s p))) xs)
      @ [''total task num: '' @ fmt_u (length xs)]"
proof -
  let ?s = "s\<lparr>task_cnt := 0, task_log := task_log s @ [''begin to print all task: '']\<rparr>"
  have "unat (of_nat (length xs) :: u32) = length xs" using assms(3) by (simp add: unat_of_nat)
  then have "sint (of_nat (length xs) :: u32) = int (length xs)"
    using assms(3) by (subst sint_eq_uint_small) (simp_all add: uint_nat del: of_nat_unat)
  then show ?thesis
    using klist.pcb_traversal [OF assms(1), of ?s init_task xs] each_pcb [of xs ?s] assms(2,4)
    by (simp add: print_pcb_def fmt_d_def)
qed

text \<open>A task that has already dropped its files or fs structure (an exiting task that is still on the
  list) makes \<^verbatim>\<open>print_pcb\<close> follow a null pointer.\<close>

theorem print_pcb_null_deref:
  assumes "klist L is_l" and "is_l (task_links s) init_task (xs @ x # ys)"
    and "\<forall>p \<in> set xs. \<exists>t. tasks s p = Some t \<and> files_count t \<noteq> None \<and> fs_umask t \<noteq> None"
    and "tasks s x = Some t" and "files_count t = None \<or> fs_umask t = None"
  shows "print_pcb L init_task s = Inl Null_deref"
proof -
  let ?s = "s\<lparr>task_cnt := 0, task_log := task_log s @ [''begin to print all task: '']\<rparr>"
  have "each pcb_body (xs @ x # ys) ?s = Inl Null_deref"
    using assms(3-5) by (intro each_stops_at_crash [OF each_pcb]) (auto simp: pcb_body_def split: option.splits)
  then show ?thesis
    using klist.pcb_traversal [OF assms(1), of ?s init_task "xs @ x # ys"] assms(2)
    by (simp add: print_pcb_def)
qed

section \<open>Witnesses\<close>

lemma two_tasks_list: "dl_list (task_links (two_tasks a b)) 8 [0x10, 0x20]"
  by (simp add: two_tasks_def dl_list_def dl_add_tail_def dl_empty_def)

lemma two_mods_list: "dl_list (mod_links two_mods) MODULES [0x10, 0x20]"
  by (simp add: two_mods_def dl_list_def dl_add_tail_def dl_empty_def MODULES_def)

theorem print_module_init_puts_witness:
  "\<exists>s'. print_module_init dl_ops (\<lambda>m. m\<lparr>refcnt := refcnt m - 1\<rparr>) ''memmap'' two_mods = Inr (0, s')
    \<and> mods s' 0x20 = Some \<lparr>mod_name = ''memmap'', mod_state = MODULE_STATE_GOING, refcnt = 2\<rparr>
    \<and> mods s' 0x10 = Some \<lparr>mod_name = ''dram'', mod_state = MODULE_STATE_LIVE, refcnt = 1\<rparr>"
  using print_module_init_puts [OF dl.klist_axioms two_mods_list,
      of "\<lambda>m. m\<lparr>refcnt := refcnt m - 1\<rparr>" "''memmap''"]
  by (auto simp: two_mods_def)

theorem get_then_put_witness:
  "\<exists>s1 s2. print_module_init_get dl_ops (\<lambda>m. (True, m\<lparr>refcnt := refcnt m + 1\<rparr>)) ''memmap'' two_mods = Inr (0, s1)
    \<and> print_module_init dl_ops (\<lambda>m. m\<lparr>refcnt := refcnt m - 1\<rparr>) ''memmap'' (print_module_exit s1) = Inr (0, s2)
    \<and> mods s2 0x20 = Some \<lparr>mod_name = ''memmap'', mod_state = MODULE_STATE_LIVE, refcnt = 3\<rparr>"
  using get_then_put [OF dl.klist_axioms two_mods_list,
      of "\<lambda>m. (True, m\<lparr>refcnt := refcnt m + 1\<rparr>)" "\<lambda>m. m\<lparr>refcnt := refcnt m - 1\<rparr>" "''memmap''"]
  by (auto simp: two_mods_def)

lemma systemd_lines:
  "task_lines systemd =
     [[], ''pid: 1; state: 1, prio: 120, static prio: 120, normal prio: 120, rt prio: 0, parent id: 0'',
      ''task name: systemd, files count: 1, fs umask: 0, nvcsw: 2370, nivcsw: 4221'',
      ''mm: 0x7f6d83e9c000, total_vm: 41869 '']"
  by (simp add: task_lines_def systemd_def pcb_line_def name_line_def mm_line_def fmt_eval)

lemma rcu_gp_lines:
  "task_lines rcu_gp =
     [[], ''pid: 3; state: 402, prio: 100, static prio: 100, normal prio: 100, rt prio: 0, parent id: 2'',
      ''task name: rcu_gp, files count: 171, fs umask: 0, nvcsw: 3, nivcsw: 1'']"
  by (simp add: task_lines_def rcu_gp_def pcb_line_def name_line_def fmt_eval)

theorem print_pcb_lists_tasks_witness:
  "\<exists>s'. print_pcb dl_ops 8 (two_tasks systemd rcu_gp) = Inr (0, s') \<and> task_log s' =
     [''begin to print all task: '', [],
      ''pid: 1; state: 1, prio: 120, static prio: 120, normal prio: 120, rt prio: 0, parent id: 0'',
      ''task name: systemd, files count: 1, fs umask: 0, nvcsw: 2370, nivcsw: 4221'',
      ''mm: 0x7f6d83e9c000, total_vm: 41869 '', [],
      ''pid: 3; state: 402, prio: 100, static prio: 100, normal prio: 100, rt prio: 0, parent id: 2'',
      ''task name: rcu_gp, files count: 171, fs umask: 0, nvcsw: 3, nivcsw: 1'',
      ''total task num: 2'']"
proof -
  have two: "fmt_u (Suc (Suc 0)) = ''2''" by (simp add: fmt_eval numeral_2_eq_2 [symmetric])
  have "\<forall>p \<in> set [0x10, 0x20]. \<exists>t. tasks (two_tasks systemd rcu_gp) p = Some t
      \<and> files_count t \<noteq> None \<and> fs_umask t \<noteq> None"
    by (simp add: two_tasks_def systemd_def rcu_gp_def)
  from print_pcb_lists_tasks [OF dl.klist_axioms two_tasks_list _ this]
  show ?thesis
    by (simp add: two two_tasks_def systemd_lines rcu_gp_lines)
qed

theorem print_pcb_null_deref_witness:
  "print_pcb dl_ops 8 (two_tasks systemd (rcu_gp\<lparr>files_count := None\<rparr>)) = Inl Null_deref"
  using print_pcb_null_deref [OF dl.klist_axioms, of "two_tasks systemd (rcu_gp\<lparr>files_count := None\<rparr>)" 8
      "[0x10]" "0x20" "[]" "rcu_gp\<lparr>files_count := None\<rparr>"] two_tasks_list
  by (simp add: two_tasks_def systemd_def)

end
