(* ===== verification/Memmap.thy ===== *)
theory Memmap
  imports Cformat Lifecycle
begin

text \<open>
  \<^verbatim>\<open>src/code/memmap\<close>: the driver \<^verbatim>\<open>memmap.c\<close>, which lets user space map a vmalloc area page by page on
  demand, and its two clients \<^verbatim>\<open>my_read.c\<close> and \<^verbatim>\<open>my_write.c\<close>. Kernel memory is a map from addresses to
  bytes, the reserved flag and the reference count of a page are maps from \<^verbatim>\<open>struct page\<close> addresses.
  \<^verbatim>\<open>vmalloc_to_page\<close> (0 for an address that is not mapped) and the kernel address of a page are
  parameters, and \<open>vmalloc_law\<close> is what the driver relies on. A user-space access goes through the
  driver's fault handler.
\<close>

section \<open>The driver\<close>

definition MY_MEMMAP_DEV_MAJOR :: int where
  "MY_MEMMAP_DEV_MAJOR = 240"

definition MY_MEMMAP_DEV_NAME :: string where
  "MY_MEMMAP_DEV_NAME = ''my_memmap_dev''"

definition PAGE_CNT :: nat where
  "PAGE_CNT = 1000"

definition MAP_LEN :: u64 where
  "MAP_LEN = of_nat PAGE_CNT * PAGE_SIZE"

text \<open>Flag values and fault codes of the kernel's public headers.\<close>

abbreviation VM_WRITE :: u64 where "VM_WRITE \<equiv> 2"
abbreviation VM_SHARED :: u64 where "VM_SHARED \<equiv> 8"
abbreviation VM_FAULT_LOCKED :: u64 where "VM_FAULT_LOCKED \<equiv> 0x200"
abbreviation VM_FAULT_SIGBUS :: int where "VM_FAULT_SIGBUS \<equiv> 2"

record memmap = kernel +
  s_vmalloc_area :: u64
  kmem :: "u64 \<Rightarrow> u8"
  reserved :: "u64 \<Rightarrow> bool"
  page_refs :: "u64 \<Rightarrow> nat"

record vma =
  vm_start :: u64
  vm_end :: u64
  vm_pgoff :: u64
  vm_flags :: u64
  vm_ops :: bool        \<comment> \<open>\<^verbatim>\<open>vm_ops\<close> points to \<^verbatim>\<open>my_memmap_vm_ops\<close>\<close>

definition my_memmap_map :: "vma \<Rightarrow> int \<times> vma" where
  "my_memmap_map v =
     (let offset = push_bit PAGE_SHIFT (vm_pgoff v); sz = vm_end v - vm_start v
      in if sz > MAP_LEN then (- ENXIO, v)
         else if vm_flags v AND VM_WRITE \<noteq> 0 \<and> vm_flags v AND VM_SHARED = 0 then (- EINVAL, v)
         else
           let v1 = v\<lparr>vm_flags := vm_flags v OR VM_FAULT_LOCKED\<rparr>
           in if offset = 0 then (0, v1\<lparr>vm_ops := True\<rparr>) else (- ENXIO, v1))"

definition my_memmap_open :: "memmap \<Rightarrow> int \<times> memmap" where
  "my_memmap_open s = (0, s)"

text \<open>The fault handler on a fault at \<open>address\<close>: the fault code, the page it installs, the new state.
  The handler reads \<^verbatim>\<open>vmf->vma\<close> before it tests it, and \<^verbatim>\<open>get_page\<close> of a null page crashes.\<close>

definition my_memmap_vma_ops_fault ::
  "(u64 \<Rightarrow> u64) \<Rightarrow> u64 \<Rightarrow> vma option \<Rightarrow> memmap \<Rightarrow> crash + int \<times> u64 option \<times> memmap" where
  "my_memmap_vma_ops_fault vmalloc_to_page address vmf_vma s =
     (case vmf_vma of
        None \<Rightarrow> Inl Null_deref
      | Some v \<Rightarrow>
          let offset = address - vm_start v
          in if s_vmalloc_area s = 0 then Inr (VM_FAULT_SIGBUS, None, s)
             else if offset > MAP_LEN then Inr (VM_FAULT_SIGBUS, None, s)
             else
               let page = vmalloc_to_page (s_vmalloc_area s + offset)
               in if page = 0 then Inl Null_deref
                  else Inr (0, Some page, s\<lparr>page_refs := (page_refs s)(page := Suc (page_refs s page))\<rparr>))"

text \<open>Writing and reading a run of kernel memory.\<close>

definition store :: "u64 \<Rightarrow> u8 list \<Rightarrow> (u64 \<Rightarrow> u8) \<Rightarrow> u64 \<Rightarrow> u8" where
  "store p bs mem a = (if unat (a - p) < length bs then bs ! unat (a - p) else mem a)"

text \<open>The loop of \<^verbatim>\<open>my_memmap_drv_init\<close> from page \<open>i\<close> on.\<close>

function init_pages :: "(u64 \<Rightarrow> u64) \<Rightarrow> nat \<Rightarrow> u64 \<Rightarrow> memmap \<Rightarrow> crash + memmap" where
  "init_pages vmalloc_to_page i kern_virt_addr s =
     (if i < PAGE_CNT then
        if vmalloc_to_page kern_virt_addr = 0 then Inl Null_deref
        else init_pages vmalloc_to_page (Suc i) (kern_virt_addr + PAGE_SIZE)
          (s\<lparr>reserved := (reserved s)(vmalloc_to_page kern_virt_addr := True),
             kmem := store kern_virt_addr (cstr (''test: '' @ fmt_d (int i))) (kmem s)\<rparr>)
      else Inr s)"
  by pat_completeness auto
termination
  by (relation "measure (\<lambda>(_, i, _, _). PAGE_CNT - i)") auto

declare init_pages.simps [simp del]

text \<open>The answers of the kernel: the result of \<^verbatim>\<open>register_chrdev\<close> and the address \<^verbatim>\<open>vmalloc\<close> returns.\<close>

record memmap_env =
  register_ret :: int
  vmalloc_ret :: u64

definition my_memmap_drv_init :: "(u64 \<Rightarrow> u64) \<Rightarrow> memmap_env \<Rightarrow> memmap \<Rightarrow> crash + int \<times> memmap" where
  "my_memmap_drv_init vmalloc_to_page e s =
     (if register_ret e \<noteq> 0 then Inr (register_ret e, s)
      else
        let s1 = acquire (Chrdev MY_MEMMAP_DEV_MAJOR MY_MEMMAP_DEV_NAME) s;
            area = vmalloc_ret e;
            s2 = (if area = 0 then s1 else acquire (Vmalloc area) s1)\<lparr>s_vmalloc_area := area\<rparr>
        in andThen (init_pages vmalloc_to_page 0 area s2) (\<lambda>s3. Inr (0, s3)))"

text \<open>The loop of \<^verbatim>\<open>my_memmap_drv_exit\<close> from an address on; it compares addresses as 64-bit words.\<close>

partial_function (option) clear_from :: "(u64 \<Rightarrow> u64) \<Rightarrow> u64 \<Rightarrow> memmap \<Rightarrow> (crash + memmap) option" where
  "clear_from vmalloc_to_page a s =
     (if a < s_vmalloc_area s + MAP_LEN then
        if vmalloc_to_page a = 0 then Some (Inl Null_deref)
        else clear_from vmalloc_to_page (a + PAGE_SIZE) (s\<lparr>reserved := (reserved s)(vmalloc_to_page a := False)\<rparr>)
      else Some (Inr s))"

definition my_memmap_drv_exit :: "(u64 \<Rightarrow> u64) \<Rightarrow> memmap \<Rightarrow> crash + memmap" where
  "my_memmap_drv_exit vmalloc_to_page s =
     andThen (looping (clear_from vmalloc_to_page (s_vmalloc_area s) s)) (\<lambda>s1.
     andThen (if s_vmalloc_area s1 \<noteq> 0 then release (Vmalloc (s_vmalloc_area s1)) s1 else Inr s1) (\<lambda>s2.
       release (Chrdev MY_MEMMAP_DEV_MAJOR MY_MEMMAP_DEV_NAME) s2))"

text \<open>While loaded, the driver only handles faults on mappings it accepted.\<close>

inductive memmap_step :: "(u64 \<Rightarrow> u64) \<Rightarrow> memmap \<Rightarrow> memmap \<Rightarrow> bool" for vmalloc_to_page where
  step_fault: "my_memmap_vma_ops_fault vmalloc_to_page address (Some v) s = Inr (r, pg, s') \<Longrightarrow>
     memmap_step vmalloc_to_page s s'"

section \<open>The user programs\<close>

text \<open>\<^verbatim>\<open>mmap\<close> of the device at a user address: the kernel builds the area and calls \<^verbatim>\<open>my_memmap_map\<close>; an
  error becomes \<^verbatim>\<open>MAP_FAILED\<close>.\<close>

definition mmap_dev :: "u64 \<Rightarrow> u64 \<Rightarrow> u64 \<Rightarrow> vma option" where
  "mmap_dev uaddr len flags =
     (let (ret, v) = my_memmap_map
        \<lparr>vm_start = uaddr, vm_end = uaddr + len, vm_pgoff = 0, vm_flags = flags, vm_ops = False\<rparr>
      in if ret = 0 then Some v else None)"

text \<open>The kernel address behind a user address: the handler resolves the page, the offset inside the
  page is kept (the reference the fault takes on the page is left out here). \<open>page_address\<close> is the kernel address of a page.\<close>

definition user_addr ::
  "(u64 \<Rightarrow> u64) \<Rightarrow> (u64 \<Rightarrow> u64) \<Rightarrow> memmap \<Rightarrow> vma \<Rightarrow> u64 \<Rightarrow> crash + u64" where
  "user_addr vmalloc_to_page page_address s v a =
     andThen (my_memmap_vma_ops_fault vmalloc_to_page a (Some v) s) (\<lambda>(r, pg, _).
       case pg of None \<Rightarrow> Inl Bad_access | Some page \<Rightarrow> Inr (page_address page + a mod PAGE_SIZE))"

text \<open>Reading a C string at a user address with \<open>n\<close> bytes of the mapping left, and writing a run.\<close>

fun user_string ::
  "(u64 \<Rightarrow> u64) \<Rightarrow> (u64 \<Rightarrow> u64) \<Rightarrow> memmap \<Rightarrow> vma \<Rightarrow> nat \<Rightarrow> u64 \<Rightarrow> crash + string" where
  "user_string vmalloc_to_page page_address s v 0 a = Inl Bad_access"
| "user_string vmalloc_to_page page_address s v (Suc n) a =
     andThen (user_addr vmalloc_to_page page_address s v a) (\<lambda>k.
       if kmem s k = 0 then Inr []
       else andThen (user_string vmalloc_to_page page_address s v n (a + 1)) (\<lambda>cs.
         Inr (char_of_byte (kmem s k) # cs)))"

fun user_write ::
  "(u64 \<Rightarrow> u64) \<Rightarrow> (u64 \<Rightarrow> u64) \<Rightarrow> vma \<Rightarrow> u8 list \<Rightarrow> u64 \<Rightarrow> memmap \<Rightarrow> crash + memmap" where
  "user_write vmalloc_to_page page_address v [] a s = Inr s"
| "user_write vmalloc_to_page page_address v (b # bs) a s =
     andThen (user_addr vmalloc_to_page page_address s v a) (\<lambda>k.
       user_write vmalloc_to_page page_address v bs (a + 1) (s\<lparr>kmem := (kmem s)(k := b)\<rparr>))"

definition pad_right :: "nat \<Rightarrow> string \<Rightarrow> string" where
  "pad_right w t = t @ replicate (w - length t) (CHR '' '')"

text \<open>\<^verbatim>\<open>my_read.c\<close>: what it prints before it sleeps forever. It uses the result of \<^verbatim>\<open>mmap\<close> unchecked.\<close>

definition read_line ::
  "(u64 \<Rightarrow> u64) \<Rightarrow> (u64 \<Rightarrow> u64) \<Rightarrow> memmap \<Rightarrow> vma \<Rightarrow> u64 \<Rightarrow> nat \<Rightarrow> crash + string" where
  "read_line vmalloc_to_page page_address s v uaddr i =
     (let a = uaddr + of_nat (4096 * i)
      in andThen (user_string vmalloc_to_page page_address s v (unat (vm_end v - a)) a) (\<lambda>t.
           Inr (''i='' @ fmt_d (int i) @ '', uaddr: '' @ fmt_x 0 (unat a) @ '',  context: '' @ pad_right 10 t)))"

definition my_read_main ::
  "(u64 \<Rightarrow> u64) \<Rightarrow> (u64 \<Rightarrow> u64) \<Rightarrow> int \<Rightarrow> u64 \<Rightarrow> memmap \<Rightarrow> crash + string list" where
  "my_read_main vmalloc_to_page page_address fd uaddr s =
     (if fd < 0 then Inr [''open dev fail'']
      else case mmap_dev uaddr (1000 * 4096) 1 of
        None \<Rightarrow> Inl Bad_access
      | Some v \<Rightarrow>
          andThen (read_line vmalloc_to_page page_address s v uaddr 0) (\<lambda>l0.
          andThen (read_line vmalloc_to_page page_address s v uaddr 1) (\<lambda>l1.
          andThen (read_line vmalloc_to_page page_address s v uaddr 2) (\<lambda>l2.
            Inr [l0, l1, l2]))))"

text \<open>\<^verbatim>\<open>my_write.c\<close>: the memory it leaves behind before it sleeps forever.\<close>

definition my_write_main ::
  "(u64 \<Rightarrow> u64) \<Rightarrow> (u64 \<Rightarrow> u64) \<Rightarrow> int \<Rightarrow> u64 \<Rightarrow> memmap \<Rightarrow> crash + memmap" where
  "my_write_main vmalloc_to_page page_address fd uaddr s =
     (if fd < 0 then Inr s
      else case mmap_dev uaddr (10 * 4096) (VM_WRITE OR VM_SHARED) of
        None \<Rightarrow> Inl Bad_access
      | Some v \<Rightarrow> user_write vmalloc_to_page page_address v
          (cstr ''write my context from write userspace'') uaddr s)"

section \<open>What the driver relies on and maintains\<close>

text \<open>The law of a vmalloc area: page aligned, below the top of the address space, every page of it
  has a \<^verbatim>\<open>struct page\<close> whose kernel address is that page.\<close>

definition vmalloc_law :: "(u64 \<Rightarrow> u64) \<Rightarrow> (u64 \<Rightarrow> u64) \<Rightarrow> u64 \<Rightarrow> bool" where
  "vmalloc_law vmalloc_to_page page_address area \<longleftrightarrow>
     area \<noteq> 0 \<and> unat area mod PAGE_SIZE = 0 \<and> unat area + unat MAP_LEN < 2 ^ 64 \<and>
     (\<forall>off < unat MAP_LEN. vmalloc_to_page (area + of_nat off) \<noteq> 0 \<and>
        page_address (vmalloc_to_page (area + of_nat off)) = area + of_nat (off - off mod PAGE_SIZE))"

text \<open>The text the driver puts at the start of page \<open>i\<close>.\<close>

definition page_text :: "nat \<Rightarrow> string" where
  "page_text i = ''test: '' @ fmt_d (int i)"

definition holds_text :: "memmap \<Rightarrow> nat \<Rightarrow> string \<Rightarrow> bool" where
  "holds_text s off t \<longleftrightarrow>
     (\<forall>j \<le> length t. kmem s (s_vmalloc_area s + of_nat (off + j)) = cstr t ! j)"

definition memmap_loaded ::
  "(u64 \<Rightarrow> u64) \<Rightarrow> (u64 \<Rightarrow> u64) \<Rightarrow> resource multiset \<Rightarrow> memmap \<Rightarrow> bool" where
  "memmap_loaded vmalloc_to_page page_address base s \<longleftrightarrow>
     vmalloc_law vmalloc_to_page page_address (s_vmalloc_area s) \<and>
     mset (held s) = {#Vmalloc (s_vmalloc_area s), Chrdev MY_MEMMAP_DEV_MAJOR MY_MEMMAP_DEV_NAME#} + base"

text \<open>The line \<^verbatim>\<open>my_read.c\<close> prints for page \<open>i\<close> when it finds text \<open>t\<close> there.\<close>

definition shown :: "u64 \<Rightarrow> nat \<Rightarrow> string \<Rightarrow> string" where
  "shown uaddr i t = ''i='' @ fmt_d (int i) @ '', uaddr: '' @ fmt_x 0 (unat (uaddr + of_nat (4096 * i))) @
     '',  context: '' @ pad_right 10 t"

text \<open>A concrete memory for the witnesses: a page is named by its frame number.\<close>

definition frame_of :: "u64 \<Rightarrow> u64" where
  "frame_of a = of_nat (unat a div 4096)"

definition frame_address :: "u64 \<Rightarrow> u64" where
  "frame_address p = of_nat (unat p * 4096)"

definition memmap0 :: memmap where
  "memmap0 = \<lparr>held = [], s_vmalloc_area = 0, kmem = \<lambda>_. 0, reserved = \<lambda>_. False, page_refs = \<lambda>_. 0\<rparr>"

section \<open>Lemmas\<close>

lemma unat_MAP_LEN: "unat MAP_LEN = 4096000"
  by (simp add: MAP_LEN_def PAGE_CNT_def)

lemma store_at:
  fixes x y :: nat
  assumes "x < 2 ^ 62" and "y < 2 ^ 62" and "length bs < 2 ^ 62"
  shows "store (b + of_nat y) bs mem (b + of_nat x) =
    (if y \<le> x \<and> x < y + length bs then bs ! (x - y) else mem (b + of_nat x))"
proof (cases "y \<le> x")
  case True
  then have "b + of_nat x - (b + of_nat y) = (of_nat (x - y) :: u64)" by (simp add: of_nat_diff)
  moreover have "unat (of_nat (x - y) :: u64) = x - y" using assms by (simp add: unat_of_nat)
  ultimately show ?thesis using True by (auto simp: store_def)
next
  case False
  have "b + of_nat x - (b + of_nat y) = - (of_nat (y - x) :: u64)" using False by (simp add: of_nat_diff)
  moreover have "unat (- (of_nat (y - x) :: u64)) = 2 ^ 64 - (y - x)"
    by (rule unat_uminus_of_nat) (use False assms in auto)
  moreover have "\<not> 2 ^ 64 - (y - x) < length bs" using assms by simp
  ultimately show ?thesis using False by (simp add: store_def)
qed

lemma length_page_text: "i < PAGE_CNT \<Longrightarrow> length (page_text i) < 20"
  using length_fmt_u_le [of i 3] by (simp add: page_text_def fmt_d_def PAGE_CNT_def)

lemma page_text_no_nul: "CHR 0x00 \<notin> set (page_text i)"
  by (simp add: page_text_def fmt_d_def fmt_u_no_nul)

lemma vmalloc_page:
  "vmalloc_law v2p pa area \<Longrightarrow> i < PAGE_CNT \<Longrightarrow> v2p (area + of_nat (4096 * i)) \<noteq> 0"
  by (simp add: vmalloc_law_def unat_MAP_LEN PAGE_CNT_def del: of_nat_mult)

lemma vmalloc_page_address:
  "vmalloc_law v2p pa area \<Longrightarrow> off < 4096000 \<Longrightarrow>
   pa (v2p (area + of_nat off)) = area + of_nat (off - off mod 4096)"
  by (simp add: vmalloc_law_def unat_MAP_LEN)

lemma init_pages_step:
  "i < PAGE_CNT \<Longrightarrow> v2p k \<noteq> 0 \<Longrightarrow> init_pages v2p i k s =
     init_pages v2p (Suc i) (k + 4096) (s\<lparr>reserved := (reserved s)(v2p k := True),
       kmem := store k (cstr (page_text i)) (kmem s)\<rparr>)"
  by (simp add: init_pages.simps [of v2p i] page_text_def)

text \<open>The initialisation loop from page \<open>i\<close> on: it reserves every page and leaves its text there.\<close>

lemma init_pages_from:
  assumes "vmalloc_law v2p pa area" and "i \<le> PAGE_CNT" and "s_vmalloc_area s = area"
    and "\<forall>p<i. reserved s (v2p (area + of_nat (4096 * p))) \<and> holds_text s (4096 * p) (page_text p)"
  shows "\<exists>s'. init_pages v2p i (area + of_nat (4096 * i)) s = Inr s'
    \<and> held s' = held s \<and> s_vmalloc_area s' = area
    \<and> (\<forall>p<PAGE_CNT. reserved s' (v2p (area + of_nat (4096 * p))) \<and> holds_text s' (4096 * p) (page_text p))"
  using assms
proof (induction "PAGE_CNT - i" arbitrary: i s)
  case 0
  then show ?case by (auto simp: init_pages.simps [of v2p PAGE_CNT])
next
  case (Suc d)
  then have i: "i < PAGE_CNT" by simp
  let ?k = "area + of_nat (4096 * i) :: u64"
  let ?s = "s\<lparr>reserved := (reserved s)(v2p ?k := True), kmem := store ?k (cstr (page_text i)) (kmem s)\<rparr>"
  have next_page: "?k + 4096 = area + of_nat (4096 * Suc i)" by simp
  have page: "holds_text ?s (4096 * p) (page_text p)" if "p < Suc i" for p
    unfolding holds_text_def
  proof (intro allI impI)
    fix j assume j: "j \<le> length (page_text p)"
    have p: "p < PAGE_CNT" using that i by simp
    have small: "4096 * p + j < 2 ^ 62" "4096 * i < 2 ^ 62" "length (cstr (page_text i)) < 2 ^ 62" "j < 20"
      using j p i length_page_text [OF p] length_page_text [OF i] by (auto simp: PAGE_CNT_def buf_simps)
    have "kmem ?s (area + of_nat (4096 * p + j)) =
      (if p = i then cstr (page_text i) ! j else kmem s (area + of_nat (4096 * p + j)))"
      using small length_page_text [OF i] j store_at [OF small(1-3), of area "kmem s"] that
      by (auto simp: buf_simps)
    then show "kmem ?s (s_vmalloc_area ?s + of_nat (4096 * p + j)) = cstr (page_text p) ! j"
      using Suc.prems(3,4) that j by (auto simp: holds_text_def less_Suc_eq)
  qed
  have reserved: "reserved ?s (v2p (area + of_nat (4096 * p)))" if "p < Suc i" for p
    using Suc.prems(4) that by (auto simp: less_Suc_eq)
  have "\<exists>s'. init_pages v2p (Suc i) (area + of_nat (4096 * Suc i)) ?s = Inr s'
    \<and> held s' = held ?s \<and> s_vmalloc_area s' = area
    \<and> (\<forall>p<PAGE_CNT. reserved s' (v2p (area + of_nat (4096 * p))) \<and> holds_text s' (4096 * p) (page_text p))"
    using Suc.hyps Suc.prems i page reserved by (intro Suc.hyps(1)) auto
  then show ?case
    unfolding init_pages_step [of i v2p ?k s, OF i vmalloc_page [OF Suc.prems(1) i]] next_page by simp
qed

text \<open>A user address of an accepted mapping leads to the byte at the same offset of the area.\<close>

lemma user_addr_inside:
  assumes "vmalloc_law v2p pa (s_vmalloc_area s)" and "unat (vm_start v) mod 4096 = 0" and "off < 4096000"
  shows "user_addr v2p pa s v (vm_start v + of_nat off) = Inr (s_vmalloc_area s + of_nat off)"
proof -
  have start: "unat (vm_start v + of_nat off) mod 4096 = off mod 4096"
  proof -
    have "unat (vm_start v + of_nat off) = (unat (vm_start v) + off) mod 2 ^ 64"
      by (simp add: unat_word_ariths unat_of_nat mod_simps)
    then have "unat (vm_start v + of_nat off) mod 4096 = (unat (vm_start v) + off) mod 4096"
      by (simp add: mod_mod_cancel)
    then show ?thesis using assms(2) mod_add_left_eq [of "unat (vm_start v)" 4096 off] by simp
  qed
  have "(vm_start v + of_nat off) mod 4096 = (of_nat (off mod 4096) :: u64)"
    by (simp add: word_unat_eq_iff unat_mod_distrib start unat_of_nat)
  moreover have "\<not> (of_nat off :: u64) > MAP_LEN"
    using assms(3) by (simp add: word_less_nat_alt unat_MAP_LEN unat_of_nat)
  moreover have "s_vmalloc_area s \<noteq> 0" "v2p (s_vmalloc_area s + of_nat off) \<noteq> 0"
    using assms(1,3) by (simp_all add: vmalloc_law_def unat_MAP_LEN)
  moreover have "of_nat (off - off mod 4096) + of_nat (off mod 4096) = (of_nat off :: u64)"
    by (simp add: of_nat_add [symmetric] del: of_nat_add)
  ultimately show ?thesis
    using vmalloc_page_address [OF assms(1,3)]
    by (simp add: user_addr_def my_memmap_vma_ops_fault_def Let_def add.assoc)
qed

lemma user_string_text:
  assumes "vmalloc_law v2p pa (s_vmalloc_area s)" and "unat (vm_start v) mod 4096 = 0"
    and "holds_text s off t" and "CHR 0x00 \<notin> set t" and "off + length t < 4096000" and "length t < n"
  shows "user_string v2p pa s v n (vm_start v + of_nat off) = Inr t"
  using assms(3-6)
proof (induction t arbitrary: off n)
  case Nil
  then obtain m where "n = Suc m" by (cases n) auto
  with Nil show ?case
    using user_addr_inside [OF assms(1,2), of off] by (simp add: holds_text_def cstr_def)
next
  case (Cons c t)
  then obtain m where n: "n = Suc m" by (cases n) auto
  have bytes: "kmem s (s_vmalloc_area s + of_nat (off + j)) = cstr (c # t) ! j" if "j \<le> Suc (length t)" for j
    using Cons.prems(1) that by (simp add: holds_text_def)
  have here: "kmem s (s_vmalloc_area s + of_nat off) = byte_of c"
    using bytes [of 0] by (simp add: cstr_def)
  have "holds_text s (Suc off) t"
    unfolding holds_text_def using bytes [of "Suc _"] by (auto simp: cstr_def)
  then have "user_string v2p pa s v m (vm_start v + of_nat (Suc off)) = Inr t"
    by (rule Cons.IH) (use Cons.prems n in auto)
  then have "user_string v2p pa s v m (vm_start v + of_nat off + 1) = Inr t" by (simp add: ac_simps)
  then show ?case
    using Cons.prems here n user_addr_inside [OF assms(1,2), of off] by auto
qed

lemma store_Nil: "store k [] mem = mem"
  by (simp add: store_def fun_eq_iff)

lemma store_Cons:
  assumes "length bs < 2 ^ 64 - 1"
  shows "store (k + 1) bs (mem(k := b)) = store k (b # bs) mem"
proof
  fix a
  show "store (k + 1) bs (mem(k := b)) a = store k (b # bs) mem a"
  proof (cases "a = k")
    case True
    then have "unat (a - (k + 1)) = 2 ^ 64 - 1" using unat_uminus_of_nat [of 1] by simp
    with True assms show ?thesis by (simp add: store_def)
  next
    case False
    then have "a - k \<noteq> 0" by simp
    then have "unat (a - k) = Suc (unat (a - k - 1))"
      using unat_minus_one [of "a - k"] unat_gt_0 [of "a - k"] by simp
    moreover have "a - k - 1 = a - (k + 1)" by simp
    ultimately show ?thesis using False by (simp add: store_def)
  qed
qed

lemma user_write_store:
  assumes "vmalloc_law v2p pa (s_vmalloc_area s)" and "unat (vm_start v) mod 4096 = 0"
    and "off + length bs \<le> 4096000"
  shows "user_write v2p pa v bs (vm_start v + of_nat off) s =
    Inr (s\<lparr>kmem := store (s_vmalloc_area s + of_nat off) bs (kmem s)\<rparr>)"
  using assms
proof (induction bs arbitrary: off s)
  case Nil
  then show ?case by (simp add: store_Nil)
next
  case (Cons b bs)
  let ?k = "s_vmalloc_area s + of_nat off"
  have "user_write v2p pa v bs (vm_start v + of_nat (Suc off)) (s\<lparr>kmem := (kmem s)(?k := b)\<rparr>) =
    Inr (s\<lparr>kmem := store (s_vmalloc_area s + of_nat (Suc off)) bs ((kmem s)(?k := b))\<rparr>)"
    using Cons.IH [of "s\<lparr>kmem := (kmem s)(?k := b)\<rparr>" "Suc off"] Cons.prems
    by (simp del: of_nat_Suc fun_upd_apply)
  then have "user_write v2p pa v bs (vm_start v + of_nat off + 1) (s\<lparr>kmem := (kmem s)(?k := b)\<rparr>) =
    Inr (s\<lparr>kmem := store (?k + 1) bs ((kmem s)(?k := b))\<rparr>)" by (simp add: ac_simps del: fun_upd_apply)
  then show ?case
    using user_addr_inside [OF Cons.prems(1,2), of off] Cons.prems(3) store_Cons [of bs ?k "kmem s" b]
    by (simp del: fun_upd_apply)
qed

text \<open>The exit loop from page \<open>i\<close> on returns and clears the flag of every page left.\<close>

lemma clear_from_pages:
  assumes "vmalloc_law v2p pa (s_vmalloc_area s)" and "i \<le> PAGE_CNT"
  shows "clear_from v2p (s_vmalloc_area s + of_nat (4096 * i)) s =
    Some (Inr (s\<lparr>reserved := \<lambda>q. reserved s q \<and>
      q \<notin> (\<lambda>p. v2p (s_vmalloc_area s + of_nat (4096 * p))) ` {i..<PAGE_CNT}\<rparr>))"
  using assms
proof (induction "PAGE_CNT - i" arbitrary: i s)
  case 0
  then have "i = PAGE_CNT" by simp
  moreover have "of_nat (4096 * PAGE_CNT) = MAP_LEN" by (simp add: MAP_LEN_def mult.commute)
  ultimately show ?case by (simp add: clear_from.simps)
next
  case (Suc d)
  then have i: "i < PAGE_CNT" by simp
  let ?a = "s_vmalloc_area s + of_nat (4096 * i)"
  let ?s = "s\<lparr>reserved := (reserved s)(v2p ?a := False)\<rparr>"
  have below: "?a < s_vmalloc_area s + MAP_LEN"
  proof -
    have "unat (s_vmalloc_area s) + 4096000 < 2 ^ 64" using Suc.prems(1) by (simp add: vmalloc_law_def unat_MAP_LEN)
    moreover have "unat (of_nat (4096 * i) :: u64) = 4096 * i"
      using i by (simp add: unat_of_nat PAGE_CNT_def del: of_nat_mult)
    ultimately show ?thesis
      using i by (simp add: word_less_nat_alt unat_word_ariths(1) unat_MAP_LEN PAGE_CNT_def del: of_nat_mult)
  qed
  have step: "?a + 4096 = s_vmalloc_area ?s + of_nat (4096 * Suc i)" by simp
  have "clear_from v2p ?a s = clear_from v2p (?a + 4096) ?s"
    using below vmalloc_page [OF Suc.prems(1) i] by (simp add: clear_from.simps [of v2p ?a s] del: of_nat_mult)
  also have "\<dots> = Some (Inr (?s\<lparr>reserved := \<lambda>q. reserved ?s q \<and>
      q \<notin> (\<lambda>p. v2p (s_vmalloc_area ?s + of_nat (4096 * p))) ` {Suc i..<PAGE_CNT}\<rparr>))"
    unfolding step by (rule Suc.hyps(1)) (use Suc i in auto)
  also have "{i..<PAGE_CNT} = insert i {Suc i..<PAGE_CNT}" using i by auto
  then have "(\<lambda>q. reserved ?s q \<and> q \<notin> (\<lambda>p. v2p (s_vmalloc_area ?s + of_nat (4096 * p))) ` {Suc i..<PAGE_CNT})
    = (\<lambda>q. reserved s q \<and> q \<notin> (\<lambda>p. v2p (s_vmalloc_area s + of_nat (4096 * p))) ` {i..<PAGE_CNT})"
    by (auto simp: fun_eq_iff)
  finally show ?case by simp
qed

text \<open>Loading the driver.\<close>

lemma drv_init_ok:
  assumes "vmalloc_law v2p pa (vmalloc_ret e)" and "register_ret e = 0"
  shows "\<exists>s'. my_memmap_drv_init v2p e s = Inr (0, s') \<and> s_vmalloc_area s' = vmalloc_ret e
    \<and> held s' = Vmalloc (vmalloc_ret e) # Chrdev MY_MEMMAP_DEV_MAJOR MY_MEMMAP_DEV_NAME # held s
    \<and> (\<forall>p<PAGE_CNT. reserved s' (v2p (vmalloc_ret e + of_nat (4096 * p))) \<and> holds_text s' (4096 * p) (page_text p))"
proof -
  let ?s = "acquire (Vmalloc (vmalloc_ret e)) (acquire (Chrdev MY_MEMMAP_DEV_MAJOR MY_MEMMAP_DEV_NAME) s)
    \<lparr>s_vmalloc_area := vmalloc_ret e\<rparr>"
  have "vmalloc_ret e \<noteq> 0" using assms(1) by (simp add: vmalloc_law_def)
  moreover have "\<exists>s'. init_pages v2p 0 (vmalloc_ret e + of_nat (4096 * 0)) ?s = Inr s'
    \<and> held s' = held ?s \<and> s_vmalloc_area s' = vmalloc_ret e
    \<and> (\<forall>p<PAGE_CNT. reserved s' (v2p (vmalloc_ret e + of_nat (4096 * p))) \<and> holds_text s' (4096 * p) (page_text p))"
    by (rule init_pages_from [OF assms(1)]) simp_all
  ultimately show ?thesis
    using assms(2) by (auto simp: my_memmap_drv_init_def ledger_simps)
qed

lemma drv_exit_ok:
  assumes "memmap_loaded v2p pa base s"
  shows "\<exists>s'. my_memmap_drv_exit v2p s = Inr s' \<and> mset (held s') = base
    \<and> (\<forall>q. reserved s' q \<longleftrightarrow>
          reserved s q \<and> q \<notin> (\<lambda>p. v2p (s_vmalloc_area s + of_nat (4096 * p))) ` {0..<PAGE_CNT})"
proof -
  let ?A = "s_vmalloc_area s"
  let ?s = "s\<lparr>reserved := \<lambda>q. reserved s q \<and> q \<notin> (\<lambda>p. v2p (?A + of_nat (4096 * p))) ` {0..<PAGE_CNT}\<rparr>"
  have law: "vmalloc_law v2p pa ?A"
    and held: "mset (held ?s) = add_mset (Vmalloc ?A) (add_mset (Chrdev MY_MEMMAP_DEV_MAJOR MY_MEMMAP_DEV_NAME) base)"
    using assms by (simp_all add: memmap_loaded_def)
  have cleared: "clear_from v2p ?A s = Some (Inr ?s)"
    using clear_from_pages [OF law, of 0] by simp
  have "?A \<noteq> 0" using law by (simp add: vmalloc_law_def)
  moreover have "Vmalloc ?A \<in> set (held ?s)" "Chrdev MY_MEMMAP_DEV_MAJOR MY_MEMMAP_DEV_NAME \<in> set (held ?s)"
    using arg_cong [OF held, of set_mset] by simp_all
  ultimately show ?thesis
    using held by (simp add: my_memmap_drv_exit_def cleared release_def)
qed

lemma fault_keeps:
  "my_memmap_vma_ops_fault v2p address (Some v) s = Inr (r, pg, s') \<Longrightarrow>
   held s' = held s \<and> s_vmalloc_area s' = s_vmalloc_area s"
  by (auto simp: my_memmap_vma_ops_fault_def Let_def split: if_splits)

abbreviation memmap_env_ok where
  "memmap_env_ok vmalloc_to_page page_address e s \<equiv>
     register_ret e \<noteq> 0 \<or> vmalloc_law vmalloc_to_page page_address (vmalloc_ret e)"

interpretation mm: kmodule "\<lambda>s. mset (held s)"
    "memmap_env_ok vmalloc_to_page page_address"
    "my_memmap_drv_init vmalloc_to_page" "memmap_step vmalloc_to_page"
    "my_memmap_drv_exit vmalloc_to_page" "memmap_loaded vmalloc_to_page page_address"
  for vmalloc_to_page page_address
proof unfold_locales
  fix e :: memmap_env and s s' :: memmap and r :: int
  assume env: "register_ret e \<noteq> 0 \<or> vmalloc_law vmalloc_to_page page_address (vmalloc_ret e)"
  show "\<exists>r s'. my_memmap_drv_init vmalloc_to_page e s = Inr (r, s')"
  proof (cases "register_ret e = 0")
    case True
    then show ?thesis using env drv_init_ok by blast
  qed (simp add: my_memmap_drv_init_def)
  assume ret: "my_memmap_drv_init vmalloc_to_page e s = Inr (r, s')"
  show "r \<noteq> 0 \<Longrightarrow> mset (held s') = mset (held s)"
    using env ret drv_init_ok [of vmalloc_to_page page_address e s]
    by (cases "register_ret e = 0") (auto simp: my_memmap_drv_init_def)
next
  fix e :: memmap_env and s s' :: memmap
  assume "register_ret e \<noteq> 0 \<or> vmalloc_law vmalloc_to_page page_address (vmalloc_ret e)"
    and "my_memmap_drv_init vmalloc_to_page e s = Inr (0, s')"
  then show "memmap_loaded vmalloc_to_page page_address (mset (held s)) s'"
    using drv_init_ok [of vmalloc_to_page page_address e s]
    by (cases "register_ret e = 0") (auto simp: memmap_loaded_def my_memmap_drv_init_def)
next
  fix base and s s' :: memmap
  assume "memmap_loaded vmalloc_to_page page_address base s" and "memmap_step vmalloc_to_page s s'"
  then show "memmap_loaded vmalloc_to_page page_address base s'"
    by (auto simp: memmap_loaded_def dest: fault_keeps elim!: memmap_step.cases)
next
  fix base and s :: memmap
  assume "memmap_loaded vmalloc_to_page page_address base s"
  then show "\<exists>s'. my_memmap_drv_exit vmalloc_to_page s = Inr s' \<and> mset (held s') = base"
    using drv_exit_ok by blast
qed

lemma mmap_dev_some:
  "len \<le> MAP_LEN \<Longrightarrow> flags AND VM_WRITE = 0 \<or> flags AND VM_SHARED \<noteq> 0 \<Longrightarrow>
   mmap_dev uaddr len flags = Some \<lparr>vm_start = uaddr, vm_end = uaddr + len, vm_pgoff = 0,
     vm_flags = flags OR VM_FAULT_LOCKED, vm_ops = True\<rparr>"
  by (auto simp: mmap_dev_def my_memmap_map_def Let_def)

text \<open>The string the writer stores, and the pages it leaves alone.\<close>

lemma written_text:
  assumes "length t < 4096"
  shows "holds_text (s\<lparr>kmem := store (s_vmalloc_area s) (cstr t) (kmem s)\<rparr>) 0 t"
  using assms store_at [of _ 0 "cstr t" "s_vmalloc_area s" "kmem s"]
  by (auto simp: holds_text_def buf_simps)

lemma written_elsewhere:
  assumes "length t < 4000" and "0 < p" and "p < PAGE_CNT" and "holds_text s (4096 * p) (page_text p)"
  shows "holds_text (s\<lparr>kmem := store (s_vmalloc_area s) (cstr t) (kmem s)\<rparr>) (4096 * p) (page_text p)"
  unfolding holds_text_def
proof (intro allI impI)
  fix j assume j: "j \<le> length (page_text p)"
  then have "4096 * p + j < 2 ^ 62" using assms(3) length_page_text [OF assms(3)] by (simp add: PAGE_CNT_def)
  moreover have "\<not> 4096 * p + j < length (cstr t)" using assms(1,2) by (simp add: buf_simps)
  ultimately have "store (s_vmalloc_area s) (cstr t) (kmem s) (s_vmalloc_area s + of_nat (4096 * p + j)) =
      kmem s (s_vmalloc_area s + of_nat (4096 * p + j))"
    using store_at [of "4096 * p + j" 0 "cstr t" "s_vmalloc_area s" "kmem s"] assms(1)
    by (simp add: buf_simps del: of_nat_add of_nat_mult)
  then show "kmem (s\<lparr>kmem := store (s_vmalloc_area s) (cstr t) (kmem s)\<rparr>)
      (s_vmalloc_area (s\<lparr>kmem := store (s_vmalloc_area s) (cstr t) (kmem s)\<rparr>) + of_nat (4096 * p + j)) =
      cstr (page_text p) ! j"
    using assms(4) j by (simp add: holds_text_def del: of_nat_add of_nat_mult)
qed

lemma read_line_text:
  assumes "vmalloc_law v2p pa (s_vmalloc_area s)" and "unat (vm_start v) mod 4096 = 0"
    and "vm_end v = vm_start v + 4096000" and "holds_text s (4096 * i) t" and "CHR 0x00 \<notin> set t"
    and "length t < 100" and "i < 3" and "uaddr = vm_start v"
  shows "read_line v2p pa s v uaddr i = Inr (shown uaddr i t)"
proof -
  have "vm_end v - (uaddr + of_nat (4096 * i)) = of_nat (4096000 - 4096 * i)"
    using assms(3,7,8) by (simp add: of_nat_diff)
  moreover have "unat (of_nat (4096000 - 4096 * i) :: u64) = 4096000 - 4096 * i" by (simp add: unat_of_nat)
  ultimately have "length t < unat (vm_end v - (uaddr + of_nat (4096 * i)))"
    using assms(6,7) by (simp del: of_nat_mult of_nat_diff)
  then have "user_string v2p pa s v (unat (vm_end v - (uaddr + of_nat (4096 * i)))) (uaddr + of_nat (4096 * i)) = Inr t"
    unfolding assms(8) by (intro user_string_text assms) (use assms(6,7) in auto)
  then show ?thesis by (simp add: read_line_def Let_def shown_def)
qed

lemma frame_law: "vmalloc_law frame_of frame_address 0x10000000"
proof -
  have "frame_of (0x10000000 + of_nat off) \<noteq> 0 \<and>
      frame_address (frame_of (0x10000000 + of_nat off)) = 0x10000000 + of_nat (off - off mod 4096)"
    if "off < 4096000" for off
  proof -
    have a: "unat (0x10000000 + of_nat off :: u64) = 0x10000000 + off"
      using that by (simp add: unat_word_ariths unat_of_nat)
    have f: "unat (frame_of (0x10000000 + of_nat off)) = 0x10000 + off div 4096"
      using that by (simp add: frame_of_def a unat_of_nat)
    have "(0x10000 + off div 4096) * 4096 = 0x10000000 + (off - off mod 4096)"
      by (simp add: minus_mod_eq_div_mult)
    then have "frame_address (frame_of (0x10000000 + of_nat off)) = of_nat (0x10000000 + (off - off mod 4096))"
      unfolding frame_address_def f by (rule arg_cong)
    moreover have "frame_of (0x10000000 + of_nat off) \<noteq> 0" using f by (metis add_is_0 unat_0 zero_neq_numeral)
    ultimately show ?thesis by (simp add: of_nat_diff)
  qed
  then show ?thesis by (simp add: vmalloc_law_def unat_MAP_LEN)
qed

text \<open>A fault inside the area installs its page.\<close>

lemma fault_inside:
  assumes "vmalloc_law vmalloc_to_page page_address (s_vmalloc_area s)" and "off < 4096000"
  defines "page \<equiv> vmalloc_to_page (s_vmalloc_area s + of_nat off)"
  shows "my_memmap_vma_ops_fault vmalloc_to_page (vm_start v + of_nat off) (Some v) s =
    Inr (0, Some page, s\<lparr>page_refs := (page_refs s)(page := Suc (page_refs s page))\<rparr>)"
proof -
  have "\<not> (of_nat off :: u64) > MAP_LEN" using assms(2) by (simp add: word_less_nat_alt unat_MAP_LEN unat_of_nat)
  moreover have "s_vmalloc_area s \<noteq> 0" "page \<noteq> 0"
    using assms(1,2) by (simp_all add: vmalloc_law_def unat_MAP_LEN page_def)
  ultimately show ?thesis by (simp add: my_memmap_vma_ops_fault_def Let_def page_def)
qed

section \<open>Properties\<close>

text \<open>C4. For a loaded driver and a mapping that \<^verbatim>\<open>my_memmap_map\<close> accepted, a fault at any address inside
  the mapping succeeds and installs the page of the vmalloc area at that offset, with one more
  reference on that page and nothing else changed; the mapping accepted is never longer than the
  area, starts at its first page, and is shared when it is writable.\<close>

theorem my_memmap_fault_maps:
  assumes "vmalloc_law vmalloc_to_page page_address (s_vmalloc_area s)"
    and "my_memmap_map v0 = (0, v)"
    and "off < unat (vm_end v - vm_start v)"
  shows "(\<exists>page. my_memmap_vma_ops_fault vmalloc_to_page (vm_start v + of_nat off) (Some v) s =
        Inr (0, Some page, s\<lparr>page_refs := (page_refs s)(page := Suc (page_refs s page))\<rparr>)
      \<and> page_address page = s_vmalloc_area s + of_nat (off - off mod PAGE_SIZE))
    \<and> vm_end v - vm_start v \<le> MAP_LEN \<and> take_bit 52 (vm_pgoff v0) = 0
    \<and> (vm_flags v0 AND VM_WRITE = 0 \<or> vm_flags v0 AND VM_SHARED \<noteq> 0)"
proof -
  have size: "vm_end v - vm_start v \<le> MAP_LEN" and pgoff: "push_bit 12 (vm_pgoff v0) = 0"
    and flags: "vm_flags v0 AND VM_WRITE = 0 \<or> vm_flags v0 AND VM_SHARED \<noteq> 0"
    using assms(2) by (auto simp: my_memmap_map_def Let_def not_less split: if_splits)
  have first: "take_bit 52 (vm_pgoff v0) = 0"
  proof (rule bit_eqI)
    fix n
    show "bit (take_bit 52 (vm_pgoff v0)) n \<longleftrightarrow> bit (0 :: u64) n"
      using arg_cong [OF pgoff, of "\<lambda>w. bit w (12 + n)"] by (auto simp: bit_simps)
  qed
  have off: "off < 4096000" using size assms(3) by (simp add: word_le_nat_alt unat_MAP_LEN)
  show ?thesis
    using fault_inside [OF assms(1) off] vmalloc_page_address [OF assms(1) off] size first flags by blast
qed

text \<open>C19. Loading the driver over a vmalloc area reserves every page of it and leaves the text
  \<open>test: i\<close> at the start of page \<open>i\<close>; unloading it again returns, clears the reserved flag of exactly
  those pages and releases exactly what loading acquired.\<close>

theorem my_memmap_drv_init_exit:
  assumes "vmalloc_law vmalloc_to_page page_address (vmalloc_ret e)" and "register_ret e = 0"
  shows "\<exists>s1 s2. my_memmap_drv_init vmalloc_to_page e s = Inr (0, s1)
    \<and> (\<forall>i<PAGE_CNT. reserved s1 (vmalloc_to_page (vmalloc_ret e + of_nat (4096 * i)))
          \<and> holds_text s1 (4096 * i) (''test: '' @ fmt_d (int i)))
    \<and> my_memmap_drv_exit vmalloc_to_page s1 = Inr s2
    \<and> mset (held s2) = mset (held s)
    \<and> (\<forall>q. reserved s2 q \<longleftrightarrow> reserved s1 q \<and>
          q \<notin> (\<lambda>i. vmalloc_to_page (vmalloc_ret e + of_nat (4096 * i))) ` {0..<PAGE_CNT})"
proof -
  obtain s1 where s1: "my_memmap_drv_init vmalloc_to_page e s = Inr (0, s1)"
      "s_vmalloc_area s1 = vmalloc_ret e"
      "held s1 = Vmalloc (vmalloc_ret e) # Chrdev MY_MEMMAP_DEV_MAJOR MY_MEMMAP_DEV_NAME # held s"
      "\<forall>p<PAGE_CNT. reserved s1 (vmalloc_to_page (vmalloc_ret e + of_nat (4096 * p)))
         \<and> holds_text s1 (4096 * p) (page_text p)"
    using drv_init_ok [OF assms] by blast
  then have "memmap_loaded vmalloc_to_page page_address (mset (held s)) s1"
    using assms(1) by (simp add: memmap_loaded_def)
  from drv_exit_ok [OF this] s1 show ?thesis by (simp add: page_text_def)
qed

text \<open>C11. The driver and its two clients together: after the driver is loaded, \<^verbatim>\<open>my_write\<close> and then
  \<^verbatim>\<open>my_read\<close> run to completion, and \<^verbatim>\<open>my_read\<close> shows the text that \<^verbatim>\<open>my_write\<close> stored for page 0
  and the driver's own texts for pages 1 and 2, wherever the two processes have their mappings.\<close>

theorem memmap_write_read:
  assumes "vmalloc_law vmalloc_to_page page_address (vmalloc_ret e)" and "register_ret e = 0"
    and "0 \<le> fd" and "0 \<le> fd'" and "unat uw mod PAGE_SIZE = 0" and "unat ur mod PAGE_SIZE = 0"
  shows "\<exists>s1 s2. my_memmap_drv_init vmalloc_to_page e s = Inr (0, s1)
    \<and> my_write_main vmalloc_to_page page_address fd uw s1 = Inr s2
    \<and> my_read_main vmalloc_to_page page_address fd' ur s2 =
        Inr [shown ur 0 ''write my context from write userspace'', shown ur 1 ''test: 1'', shown ur 2 ''test: 2'']"
proof -
  let ?t = "''write my context from write userspace''"
  obtain s1 where s1: "my_memmap_drv_init vmalloc_to_page e s = Inr (0, s1)"
      "s_vmalloc_area s1 = vmalloc_ret e"
      "\<And>p. p < PAGE_CNT \<Longrightarrow> holds_text s1 (4096 * p) (page_text p)"
    using drv_init_ok [OF assms(1,2)] by blast
  let ?s2 = "s1\<lparr>kmem := store (s_vmalloc_area s1) (cstr ?t) (kmem s1)\<rparr>"
  let ?vw = "\<lparr>vm_start = uw, vm_end = uw + 40960, vm_pgoff = 0, vm_flags = 10 OR VM_FAULT_LOCKED, vm_ops = True\<rparr>"
  let ?vr = "\<lparr>vm_start = ur, vm_end = ur + 4096000, vm_pgoff = 0, vm_flags = 1 OR VM_FAULT_LOCKED, vm_ops = True\<rparr>"
  have law: "vmalloc_law vmalloc_to_page page_address (s_vmalloc_area s1)"
    "vmalloc_law vmalloc_to_page page_address (s_vmalloc_area ?s2)" using assms(1) s1(2) by simp_all
  have written: "my_write_main vmalloc_to_page page_address fd uw s1 = Inr ?s2"
    using user_write_store [OF law(1), of ?vw 0 "cstr ?t"] assms(3,5)
    by (simp add: my_write_main_def mmap_dev_some MAP_LEN_def PAGE_CNT_def buf_simps)
  have page0: "holds_text ?s2 (4096 * 0) ?t"
    using written_text [of ?t s1] by simp
  have others: "holds_text ?s2 (4096 * p) (page_text p)" if "p \<in> {1, 2}" for p
    using that s1(3) written_elsewhere [of ?t p s1] by (auto simp: PAGE_CNT_def)
  have read: "read_line vmalloc_to_page page_address ?s2 ?vr ur i = Inr (shown ur i t)"
    if "holds_text ?s2 (4096 * i) t" "CHR 0x00 \<notin> set t" "length t < 100" "i < 3" for i t
    using read_line_text [OF law(2), of ?vr i t ur] that assms(6) by simp
  have "mmap_dev ur (1000 * 4096) 1 = Some ?vr" by (simp add: mmap_dev_some MAP_LEN_def PAGE_CNT_def)
  then have "my_read_main vmalloc_to_page page_address fd' ur ?s2 =
      Inr [shown ur 0 ?t, shown ur 1 (page_text 1), shown ur 2 (page_text 2)]"
    using read [OF page0] read [OF others [of 1]] read [OF others [of 2]] page_text_no_nul assms(4)
      length_page_text [of 1] length_page_text [of 2]
    by (simp add: my_read_main_def PAGE_CNT_def)
  moreover have "page_text 1 = ''test: 1''" "page_text 2 = ''test: 2''" by (simp_all add: page_text_def fmt_eval)
  ultimately show ?thesis using s1(1) written by auto
qed

text \<open>Loading and unloading the driver any number of times, with faults in between, leaves the
  kernel's ledger unchanged: nothing leaks and nothing is released twice.\<close>

lemma memmap_lifetimes:
  assumes "(lifetime (memmap_env_ok vmalloc_to_page page_address)
    (my_memmap_drv_init vmalloc_to_page) (memmap_step vmalloc_to_page) (my_memmap_drv_exit vmalloc_to_page))\<^sup>*\<^sup>* s s'"
  shows "mset (held s') = mset (held s)"
  using assms by (rule mm.lifetimes_balanced)

text \<open>The driver does not check \<^verbatim>\<open>vmalloc\<close>: when it returns null (and null is not a mapped address),
  loading crashes on a null \<^verbatim>\<open>struct page\<close> instead of returning an error.\<close>

theorem my_memmap_drv_init_no_memory:
  assumes "register_ret e = 0" and "vmalloc_ret e = 0" and "vmalloc_to_page 0 = 0"
  shows "my_memmap_drv_init vmalloc_to_page e s = Inl Null_deref"
  using assms by (simp add: my_memmap_drv_init_def init_pages.simps [of vmalloc_to_page 0] PAGE_CNT_def)

section \<open>Witnesses\<close>

theorem my_memmap_fault_maps_witness:
  "\<exists>page. my_memmap_vma_ops_fault frame_of (0x7f0000000000 + of_nat 5000)
       (Some \<lparr>vm_start = 0x7f0000000000, vm_end = 0x7f0000002000, vm_pgoff = 0, vm_flags = 0x201, vm_ops = True\<rparr>)
       (memmap0\<lparr>s_vmalloc_area := 0x10000000\<rparr>) =
     Inr (0, Some page, memmap0\<lparr>s_vmalloc_area := 0x10000000, page_refs := (\<lambda>_. 0)(page := 1)\<rparr>)
     \<and> frame_address page = 0x10001000"
  using my_memmap_fault_maps [of frame_of frame_address "memmap0\<lparr>s_vmalloc_area := 0x10000000\<rparr>"
      "\<lparr>vm_start = 0x7f0000000000, vm_end = 0x7f0000002000, vm_pgoff = 0, vm_flags = 1, vm_ops = False\<rparr>"
      "\<lparr>vm_start = 0x7f0000000000, vm_end = 0x7f0000002000, vm_pgoff = 0, vm_flags = 0x201, vm_ops = True\<rparr>" 5000]
    frame_law
  by (simp add: my_memmap_map_def MAP_LEN_def PAGE_CNT_def memmap0_def)

theorem my_memmap_drv_init_exit_witness:
  "\<exists>s1 s2. my_memmap_drv_init frame_of \<lparr>register_ret = 0, vmalloc_ret = 0x10000000\<rparr> memmap0 = Inr (0, s1)
    \<and> holds_text s1 (4096 * 7) ''test: 7'' \<and> my_memmap_drv_exit frame_of s1 = Inr s2 \<and> held s2 = []"
proof -
  have seven: "(7::nat) < PAGE_CNT" "''test: '' @ fmt_d (int 7) = ''test: 7''"
    by (simp_all add: PAGE_CNT_def fmt_eval)
  show ?thesis
    using my_memmap_drv_init_exit [of frame_of frame_address "\<lparr>register_ret = 0, vmalloc_ret = 0x10000000\<rparr>" memmap0]
      frame_law seven by (fastforce simp: memmap0_def)
qed

theorem memmap_write_read_witness:
  "\<exists>s1 s2. my_memmap_drv_init frame_of \<lparr>register_ret = 0, vmalloc_ret = 0x10000000\<rparr> memmap0 = Inr (0, s1)
    \<and> my_write_main frame_of frame_address 3 0x7f0000001000 s1 = Inr s2
    \<and> my_read_main frame_of frame_address 3 0x7f1000000000 s2 =
        Inr [shown 0x7f1000000000 0 ''write my context from write userspace'',
             shown 0x7f1000000000 1 ''test: 1'', shown 0x7f1000000000 2 ''test: 2'']"
  by (rule memmap_write_read) (simp_all add: frame_law)

lemma memmap_lifetimes_runs:
  "\<exists>s'. lifetime (memmap_env_ok frame_of frame_address)
      (my_memmap_drv_init frame_of) (memmap_step frame_of) (my_memmap_drv_exit frame_of) memmap0 s'
    \<and> mset (held s') = {#}"
proof -
  obtain s1 where "my_memmap_drv_init frame_of \<lparr>register_ret = 0, vmalloc_ret = 0x10000000\<rparr> memmap0 = Inr (0, s1)"
    using drv_init_ok [of frame_of frame_address "\<lparr>register_ret = 0, vmalloc_ret = 0x10000000\<rparr>" memmap0] frame_law by auto
  then obtain s' where "lifetime (memmap_env_ok frame_of frame_address)
      (my_memmap_drv_init frame_of) (memmap_step frame_of) (my_memmap_drv_exit frame_of) memmap0 s'"
    using mm.lifetime_exists [of "\<lparr>register_ret = 0, vmalloc_ret = 0x10000000\<rparr>" frame_of frame_address] frame_law by auto
  moreover from this have "mset (held s') = mset (held memmap0)"
    by (intro memmap_lifetimes) (rule r_into_rtranclp)
  ultimately show ?thesis by (auto simp: memmap0_def)
qed

theorem my_memmap_drv_init_no_memory_witness:
  "my_memmap_drv_init frame_of \<lparr>register_ret = 0, vmalloc_ret = 0\<rparr> memmap0 = Inl Null_deref"
  by (rule my_memmap_drv_init_no_memory) (simp_all add: frame_of_def)

end
