(* ===== verification/Memlog.thy ===== *)
theory Memlog
  imports Memmap
begin

text \<open>
  The order of the calls on the device of \<^verbatim>\<open>src/code/memmap/memmap.c\<close>, which its log lines are there to show (``check
  the order''): the operations with the lines they print, and a session of one process. The page offset of a fault
  and \<^verbatim>\<open>vmalloc_to_pfn\<close> are only used in the log.
\<close>

section \<open>The operations with their lines\<close>

definition my_memmap_open_log :: "string \<Rightarrow> int \<Rightarrow> string list" where
  "my_memmap_open_log comm pid =
     [''my_memmap_open open, check the order, process name='' @ comm @ '', pid='' @ fmt_d pid]"

definition my_memmap_map_log :: "vma \<Rightarrow> string list" where
  "my_memmap_map_log v =
     (if vm_end v - vm_start v > MAP_LEN then [''size is too big'']
      else if vm_flags v AND VM_WRITE \<noteq> 0 \<and> vm_flags v AND VM_SHARED = 0 then [''map: write also request share attr.'']
      else if push_bit PAGE_SHIFT (vm_pgoff v) = 0 then [''my_memmap_drv_init enry...'']
      else [''offset out of range''])"

definition my_memmap_vma_ops_open :: "string list \<Rightarrow> string list" where
  "my_memmap_vma_ops_open log = log @ [''my_memmap_vma_ops_open open, check the order'']"

definition my_memmap_vma_ops_close :: "string list \<Rightarrow> string list" where
  "my_memmap_vma_ops_close log = log @ [''my_memmap_vma_ops_close close, check the order'']"

definition map_line :: "u64 \<Rightarrow> u64 \<Rightarrow> u64 \<Rightarrow> u64 \<Rightarrow> string" where
  "map_line kern_virt_start pfn_start address pgoff =
     ''my_memmap_vma_ops_fault: map kvaddr: 0x'' @ fmt_x 0 (unat kern_virt_start) @
     '' (kpaddr: 0x'' @ fmt_x 16 (unat (push_bit PAGE_SHIFT pfn_start)) @ '') to (uaddr: 0x'' @ fmt_x 0 (unat address) @
     ''), size: 0x'' @ fmt_x 0 4096 @ '', page: '' @ fmt_d (sint pgoff)"

text \<open>The lines of a fault at \<open>address\<close> with page offset \<open>pgoff\<close> in \<open>v\<close>.\<close>

definition fault_log :: "(u64 \<Rightarrow> u64) \<Rightarrow> u64 \<Rightarrow> u64 \<Rightarrow> vma \<Rightarrow> memmap \<Rightarrow> string list" where
  "fault_log vmalloc_to_pfn address pgoff v s =
     (let kern_virt_start = s_vmalloc_area s + push_bit PAGE_SHIFT pgoff;
          pfn_start = vmalloc_to_pfn kern_virt_start
      in ''my_memmap_vma_ops_fault entry...'' #
         (if s_vmalloc_area s = 0 then [''vaddr is null'']
          else if address - vm_start v > MAP_LEN then []
          else [map_line kern_virt_start pfn_start address pgoff]))"

section \<open>A session\<close>

text \<open>The calls the kernel makes on the device for a process, in order.\<close>

datatype dev_call =
    Dev_open string int
  | Dev_map vma
  | Vma_opened
  | Vma_closed
  | Vma_fault u64 u64 vma

fun dev_calls ::
  "(u64 \<Rightarrow> u64) \<Rightarrow> (u64 \<Rightarrow> u64) \<Rightarrow> dev_call list \<Rightarrow> memmap \<times> string list \<Rightarrow> crash + memmap \<times> string list" where
  "dev_calls vmalloc_to_page vmalloc_to_pfn [] (s, log) = Inr (s, log)"
| "dev_calls vmalloc_to_page vmalloc_to_pfn (c # cs) (s, log) =
     (case c of
        Dev_open comm pid \<Rightarrow> dev_calls vmalloc_to_page vmalloc_to_pfn cs (snd (my_memmap_open s), log @ my_memmap_open_log comm pid)
      | Dev_map v \<Rightarrow> dev_calls vmalloc_to_page vmalloc_to_pfn cs (s, log @ my_memmap_map_log v)
      | Vma_opened \<Rightarrow> dev_calls vmalloc_to_page vmalloc_to_pfn cs (s, my_memmap_vma_ops_open log)
      | Vma_closed \<Rightarrow> dev_calls vmalloc_to_page vmalloc_to_pfn cs (s, my_memmap_vma_ops_close log)
      | Vma_fault address pgoff v \<Rightarrow>
          andThen (my_memmap_vma_ops_fault vmalloc_to_page address (Some v) s) (\<lambda>(r, pg, s1).
            dev_calls vmalloc_to_page vmalloc_to_pfn cs (s1, log @ fault_log vmalloc_to_pfn address pgoff v s)))"

text \<open>The fault at offset \<open>off\<close> of a mapping, as the kernel reports it.\<close>

definition fault_at :: "vma \<Rightarrow> nat \<Rightarrow> dev_call" where
  "fault_at v off = Vma_fault (vm_start v + of_nat off) (vm_pgoff v + drop_bit 12 (of_nat off)) v"

text \<open>The lines of a fault that is served, over the page it installs.\<close>

definition served_log :: "(u64 \<Rightarrow> u64) \<Rightarrow> (u64 \<Rightarrow> u64) \<Rightarrow> (u64 \<Rightarrow> u64) \<Rightarrow> u64 \<Rightarrow> vma \<Rightarrow> nat \<Rightarrow> string list" where
  "served_log vmalloc_to_page page_address vmalloc_to_pfn area v off =
     (let kaddr = page_address (vmalloc_to_page (area + of_nat off))
      in [''my_memmap_vma_ops_fault entry...'',
          map_line kaddr (vmalloc_to_pfn kaddr) (vm_start v + of_nat off) (of_nat (off div 4096))])"

section \<open>Lemmas\<close>

lemma page_of_offset:
  assumes "off < 4096000"
  shows "drop_bit 12 (of_nat off :: u64) = of_nat (off div 4096)"
    and "push_bit 12 (of_nat (off div 4096) :: u64) = of_nat (off - off mod 4096)"
proof -
  have "unat (of_nat off :: u64) = off" using assms by (simp add: unat_of_nat)
  then have "unat (drop_bit 12 (of_nat off :: u64)) = off div 4096"
    by (simp add: drop_bit_eq_div unat_div)
  moreover have "unat (of_nat (off div 4096) :: u64) = off div 4096" using assms by (simp add: unat_of_nat)
  ultimately show "drop_bit 12 (of_nat off :: u64) = of_nat (off div 4096)" by (simp add: word_unat_eq_iff)
  have "of_nat (off div 4096) * 4096 = (of_nat (off div 4096 * 4096) :: u64)" by simp
  also have "off div 4096 * 4096 = off - off mod 4096" by (simp add: minus_mod_eq_div_mult)
  finally show "push_bit 12 (of_nat (off div 4096) :: u64) = of_nat (off - off mod 4096)" by (simp add: push_bit_eq_mult)
qed

text \<open>The line names the page that is installed.\<close>

lemma fault_log_served:
  assumes "vmalloc_law vp pa (s_vmalloc_area s)" and "off < 4096000" and "vm_pgoff v = 0"
  shows "fault_log pfn (vm_start v + of_nat off) (vm_pgoff v + drop_bit 12 (of_nat off)) v s = served_log vp pa pfn (s_vmalloc_area s) v off"
proof -
  have "s_vmalloc_area s \<noteq> 0" using assms(1) by (simp add: vmalloc_law_def)
  moreover have "\<not> (of_nat off :: u64) > MAP_LEN" using assms(2) by (simp add: word_less_nat_alt unat_MAP_LEN unat_of_nat)
  ultimately show ?thesis
    using vmalloc_page_address [OF assms(1,2)] page_of_offset [OF assms(2)] assms(3)
    by (simp add: fault_log_def served_log_def Let_def)
qed

lemma faults_served:
  assumes "vmalloc_law vp pa (s_vmalloc_area s)" and "\<forall>off \<in> set offs. off < 4096000" and "vm_pgoff v = 0"
  shows "\<exists>s'. dev_calls vp pfn (map (fault_at v) offs @ rest) (s, log) =
      dev_calls vp pfn rest (s', log @ concat (map (served_log vp pa pfn (s_vmalloc_area s) v) offs))
    \<and> s' = s\<lparr>page_refs := \<lambda>pg. page_refs s pg + length (filter (\<lambda>off. vp (s_vmalloc_area s + of_nat off) = pg) offs)\<rparr>"
  using assms(1,2)
proof (induction offs arbitrary: s log)
  case (Cons off offs)
  let ?pg = "vp (s_vmalloc_area s + of_nat off)"
  let ?s = "s\<lparr>page_refs := (page_refs s)(?pg := Suc (page_refs s ?pg))\<rparr>"
  have "dev_calls vp pfn (map (fault_at v) (off # offs) @ rest) (s, log)
      = dev_calls vp pfn (map (fault_at v) offs @ rest) (?s, log @ served_log vp pa pfn (s_vmalloc_area s) v off)"
    using fault_inside [OF Cons.prems(1), of off v] fault_log_served [OF Cons.prems(1) _ assms(3), of off pfn] Cons.prems(2)
    by (simp add: fault_at_def)
  moreover have "(\<lambda>pg. page_refs ?s pg + length (filter (\<lambda>off. vp (s_vmalloc_area s + of_nat off) = pg) offs))
      = (\<lambda>pg. page_refs s pg + length (filter (\<lambda>off. vp (s_vmalloc_area s + of_nat off) = pg) (off # offs)))"
    by auto
  ultimately show ?case using Cons.IH [of ?s] Cons.prems by simp
qed simp

section \<open>Properties\<close>

text \<open>C25. The session of a process that opens the device, maps it from its first page, touches any offsets of the
  mapping and unmaps it again: nothing crashes, the log has the lines in the order of the calls, every fault's
  line names the kernel address of the page that was installed, and every page has gained exactly as many
  references as there were faults on it, with nothing else changed.\<close>

theorem memmap_session:
  assumes "vmalloc_law vmalloc_to_page page_address (s_vmalloc_area s)"
    and "my_memmap_map v0 = (0, v)" and "vm_pgoff v0 = 0"
    and "\<forall>off \<in> set offs. off < unat (vm_end v - vm_start v)"
  shows "dev_calls vmalloc_to_page vmalloc_to_pfn
      ([Dev_open comm pid, Dev_map v0] @ map (fault_at v) offs @ [Vma_closed]) (s, []) =
    Inr (s\<lparr>page_refs := \<lambda>pg. page_refs s pg +
          length (filter (\<lambda>off. vmalloc_to_page (s_vmalloc_area s + of_nat off) = pg) offs)\<rparr>,
      [''my_memmap_open open, check the order, process name='' @ comm @ '', pid='' @ fmt_d pid,
       ''my_memmap_drv_init enry...'']
      @ concat (map (served_log vmalloc_to_page page_address vmalloc_to_pfn (s_vmalloc_area s) v) offs)
      @ [''my_memmap_vma_ops_close close, check the order''])"
proof -
  have size: "vm_end v - vm_start v \<le> MAP_LEN" and pgoff: "vm_pgoff v = 0"
    and log: "my_memmap_map_log v0 = [''my_memmap_drv_init enry...'']"
    using assms(2,3) by (auto simp: my_memmap_map_def my_memmap_map_log_def Let_def not_less split: if_splits)
  have "\<forall>off \<in> set offs. off < 4096000"
    using assms(4) size by (auto simp: word_le_nat_alt unat_MAP_LEN)
  from faults_served [OF assms(1) this pgoff, of vmalloc_to_pfn "[Vma_closed]"] show ?thesis
    by (simp add: my_memmap_open_def my_memmap_open_log_def log my_memmap_vma_ops_close_def)
qed

section \<open>Witnesses\<close>

theorem memmap_session_witness:
  "\<exists>s' lines. dev_calls frame_of frame_of
      ([Dev_open ''my_read'' 42, Dev_map \<lparr>vm_start = 0x7f0000000000, vm_end = 0x7f0000002000, vm_pgoff = 0, vm_flags = 1, vm_ops = False\<rparr>] @
        map (fault_at \<lparr>vm_start = 0x7f0000000000, vm_end = 0x7f0000002000, vm_pgoff = 0, vm_flags = 0x201, vm_ops = True\<rparr>) [0, 5000] @
        [Vma_closed]) (memmap0\<lparr>s_vmalloc_area := 0x10000000\<rparr>, []) = Inr (s', lines)
    \<and> page_refs s' (frame_of 0x10001388) = 1"
  using memmap_session [of frame_of frame_address "memmap0\<lparr>s_vmalloc_area := 0x10000000\<rparr>"
      "\<lparr>vm_start = 0x7f0000000000, vm_end = 0x7f0000002000, vm_pgoff = 0, vm_flags = 1, vm_ops = False\<rparr>"
      "\<lparr>vm_start = 0x7f0000000000, vm_end = 0x7f0000002000, vm_pgoff = 0, vm_flags = 0x201, vm_ops = True\<rparr>" "[0, 5000]"
      frame_of "''my_read''" 42] frame_law
  by (simp add: my_memmap_map_def MAP_LEN_def PAGE_CNT_def memmap0_def frame_of_def)

end
