(* ===== verification/Blkdev.thy ===== *)
theory Blkdev
  imports Lifecycle "HOL-Library.Signed_Division"
begin

text \<open>
  \<^verbatim>\<open>src/code/mydev/blkdev/myblkdev.c\<close>: a RAM disk. The C integers keep their widths, so the products
  \<^verbatim>\<open>sector * sector_size\<close> and \<^verbatim>\<open>nr_sectors * sector_size\<close> wrap at 32 bits and \<^verbatim>\<open>size\<close> is read back as a
  signed number. The block layer is not part of the repository: the request source the driver loops
  over is a record of functions about which nothing is assumed. With \<^verbatim>\<open>blk_get_request\<close>, the call the
  driver makes, the loop never returns, so its work is stated pass by pass: the first \<open>n\<close> passes do
  what a reference server does that reads and writes a list of bytes at natural numbers.
\<close>

section \<open>The driver\<close>

definition MY_DEVICE_NAME :: string where
  "MY_DEVICE_NAME = ''myramdisk''"

definition sector_size :: u16 where
  "sector_size = 512"

text \<open>The fields of \<^verbatim>\<open>struct gendisk\<close> that the driver sets.\<close>

record gendisk =
  gd_major :: int
  first_minor :: int
  disk_name :: string
  gd_queue :: u64
  capacity :: u64               \<comment> \<open>in sectors\<close>

record ramdisk_state = kernel +
  mybdrv_ma_no :: int
  diskmb :: u32
  disk_size :: u32
  ramdisk :: u64
  disk :: "u8 list"             \<comment> \<open>the bytes that \<^verbatim>\<open>ramdisk\<close> points to\<close>
  my_gd :: u64
  gd_fields :: gendisk          \<comment> \<open>what \<^verbatim>\<open>my_gd\<close> points to\<close>
  my_request_queue :: u64
  logical_block_size :: u16     \<comment> \<open>of that queue\<close>

text \<open>The current segment of a request: its position and length in sectors, its direction and the
  bytes of its bio.\<close>

record segment =
  seg_pos :: u64
  seg_sectors :: u32
  seg_write :: bool
  seg_data :: "u8 list"

text \<open>The calls the driver makes into the block layer, over a queue of type \<open>'q\<close> and requests of type
  \<open>'r\<close>: \<^verbatim>\<open>blk_get_request\<close>, the reads of the current segment, a copy into its bio, and
  \<^verbatim>\<open>__blk_end_request_cur\<close>, which says whether the request has more to do.\<close>

record ('q, 'r) blk_ops =
  get_request :: "'q \<Rightarrow> 'r option \<times> 'q"
  cur_segment :: "'q \<Rightarrow> 'r \<Rightarrow> segment"
  bio_fill :: "'r \<Rightarrow> u8 list \<Rightarrow> 'q \<Rightarrow> 'q"
  end_request_cur :: "'r \<Rightarrow> int \<Rightarrow> 'q \<Rightarrow> bool \<times> 'q"

text \<open>The body of the loop of \<^verbatim>\<open>my_request\<close> up to the label \<^verbatim>\<open>done\<close>: the bytes copied into the bio of a
  read, and the disk.\<close>

definition serve :: "segment \<Rightarrow> ramdisk_state \<Rightarrow> crash + u8 list option \<times> ramdisk_state" where
  "serve g s =
     (let nr_sectors = seg_sectors g;
          sector = ucast (seg_pos g) :: u32;
          off = sector * ucast sector_size;
          ptr = ramdisk s + ucast off;
          sz = nr_sectors * ucast sector_size;
          n = unat (scast sz :: u64)
      in if ptr + scast sz > ramdisk s + scast (disk_size s) then Inr (None, s)
         else if unat off + n > length (disk s) \<or> n > length (seg_data g) then Inl Bad_access
         else if seg_write g then Inr (None, s\<lparr>disk := buf_put (disk s) (unat off) (take n (seg_data g))\<rparr>)
         else Inr (Some (buf_put (seg_data g) 0 (buf_get (unat off) n (disk s))), s))"

text \<open>One pass of the loop over the request \<open>r\<close>: the segment is served and completed with \<^verbatim>\<open>res\<close>, which
  is always 0; a request with nothing left is followed by the next one asked for.\<close>

definition request_pass ::
  "('q, 'r) blk_ops \<Rightarrow> 'r \<Rightarrow> 'q \<Rightarrow> ramdisk_state \<Rightarrow> crash + 'r option \<times> 'q \<times> ramdisk_state" where
  "request_pass Q r q s =
     (case serve (cur_segment Q q r) s of
        Inl c \<Rightarrow> Inl c
      | Inr (filled, s1) \<Rightarrow>
          let q1 = (case filled of None \<Rightarrow> q | Some bs \<Rightarrow> bio_fill Q r bs q);
              (left, q2) = end_request_cur Q r 0 q1
          in if left then Inr (Some r, q2, s1)
             else Inr (fst (get_request Q q2), snd (get_request Q q2), s1))"

partial_function (option) request_loop ::
  "('q, 'r) blk_ops \<Rightarrow> 'r option \<Rightarrow> 'q \<Rightarrow> ramdisk_state \<Rightarrow> (crash + 'q \<times> ramdisk_state) option" where
  "request_loop Q rq q s =
     (case rq of
        None \<Rightarrow> Some (Inr (q, s))
      | Some r \<Rightarrow>
          (case request_pass Q r q s of
             Inl c \<Rightarrow> Some (Inl c)
           | Inr (rq', q', s') \<Rightarrow> request_loop Q rq' q' s'))"

definition my_request ::
  "('q, 'r) blk_ops \<Rightarrow> 'q \<Rightarrow> ramdisk_state \<Rightarrow> crash + 'q \<times> ramdisk_state" where
  "my_request Q q s = looping (request_loop Q (fst (get_request Q q)) (snd (get_request Q q)) s)"

abbreviation HDIO_GETGEO :: u32 where "HDIO_GETGEO \<equiv> 0x0301"

record hd_geometry =
  heads :: u8
  sectors :: u8
  cylinders :: u16
  start :: u64

definition my_ioctl :: "bool \<Rightarrow> u32 \<Rightarrow> ramdisk_state \<Rightarrow> int \<times> hd_geometry option" where
  "my_ioctl copy_fails cmd s =
     (if cmd = HDIO_GETGEO then
        let sz = scast (disk_size s) AND NOT 0x3f :: u64;
            geo = \<lparr>heads = 2, sectors = 16, cylinders = ucast (signed_drop_bit 6 sz), start = 4\<rparr>
        in if copy_fails then (- EFAULT, None) else (0, Some geo)
      else (- ENOTTY, None))"

text \<open>The answers of the kernel while the module loads: the results of \<^verbatim>\<open>vmalloc\<close> (with the bytes found
  there), \<^verbatim>\<open>blk_init_queue\<close>, \<^verbatim>\<open>register_blkdev\<close> and \<^verbatim>\<open>alloc_disk\<close>.\<close>

record blk_env =
  vmalloc_ret :: u64
  vmalloc_bytes :: "u8 list"
  queue_ret :: u64
  major_ret :: int
  gd_ret :: u64

definition my_init :: "blk_env \<Rightarrow> ramdisk_state \<Rightarrow> crash + int \<times> ramdisk_state" where
  "my_init e s0 =
     (let s = s0\<lparr>disk_size := diskmb s0 * 1024 * 1024, ramdisk := vmalloc_ret e\<rparr>
      in if vmalloc_ret e = 0 then Inr (- ENOMEM, s)
         else
           let s1 = acquire (Vmalloc (vmalloc_ret e)) (s\<lparr>disk := vmalloc_bytes e, my_request_queue := queue_ret e\<rparr>)
           in if queue_ret e = 0 then
                andThen (release_ptr Vmalloc (ramdisk s1) s1) (\<lambda>s2. Inr (- ENOMEM, s2))
              else
                let s2 = acquire (Queue (queue_ret e)) s1\<lparr>logical_block_size := sector_size, mybdrv_ma_no := major_ret e\<rparr>
                in if major_ret e < 0 then
                     andThen (release_ptr Vmalloc (ramdisk s2) s2) (\<lambda>s3. Inr (major_ret e, s3))
                   else
                     let s3 = acquire (Blkdev (major_ret e) MY_DEVICE_NAME) s2\<lparr>my_gd := gd_ret e\<rparr>
                     in if gd_ret e = 0 then
                          andThen (release (Blkdev (mybdrv_ma_no s3) MY_DEVICE_NAME) s3) (\<lambda>s4.
                          andThen (release_ptr Vmalloc (ramdisk s4) s4) (\<lambda>s5. Inr (- ENOMEM, s5)))
                        else
                          let s4 = acquire (Disk (gd_ret e)) s3
                                \<lparr>gd_fields := \<lparr>gd_major = mybdrv_ma_no s3, first_minor = 0, disk_name = MY_DEVICE_NAME,
                                   gd_queue = my_request_queue s3,
                                   capacity = of_int (sint (disk_size s3) sdiv uint sector_size)\<rparr>\<rparr>
                          in Inr (0, acquire (Disk_added (gd_ret e)) s4))"

definition my_exit :: "ramdisk_state \<Rightarrow> crash + ramdisk_state" where
  "my_exit s =
     andThen (release (Disk_added (my_gd s)) s) (\<lambda>s1.
     andThen (release (Disk (my_gd s1)) s1) (\<lambda>s2.
     andThen (release (Blkdev (mybdrv_ma_no s2) MY_DEVICE_NAME) s2) (\<lambda>s3.
     andThen (release (Queue (my_request_queue s3)) s3) (\<lambda>s4.
       release_ptr Vmalloc (ramdisk s4) s4))))"

text \<open>While loaded, the module serves its request queue, one pass of the loop after the other.\<close>

inductive blk_step :: "('q, 'r) blk_ops \<Rightarrow> ramdisk_state \<Rightarrow> ramdisk_state \<Rightarrow> bool" for Q where
  step_request: "request_pass Q r q s = Inr (rq', q', s') \<Longrightarrow> blk_step Q s s'"

text \<open>The first \<open>n\<close> passes of the loop, or fewer when the source answers null.\<close>

fun request_passes ::
  "('q, 'r) blk_ops \<Rightarrow> nat \<Rightarrow> 'r option \<Rightarrow> 'q \<Rightarrow> ramdisk_state \<Rightarrow> crash + 'r option \<times> 'q \<times> ramdisk_state" where
  "request_passes Q (Suc n) (Some r) q s =
     (case request_pass Q r q s of Inl c \<Rightarrow> Inl c | Inr (rq', q', s') \<Rightarrow> request_passes Q n rq' q' s')"
| "request_passes Q n rq q s = Inr (rq, q, s)"

section \<open>What the driver promises\<close>

text \<open>A RAM disk in working order: the size is a positive signed number, it is the length of the
  area, and the area does not wrap around the address space.\<close>

definition ramdisk_ok :: "ramdisk_state \<Rightarrow> bool" where
  "ramdisk_ok s \<longleftrightarrow> unat (disk_size s) < 2 ^ 31 \<and> length (disk s) = unat (disk_size s) \<and>
     unat (ramdisk s) + 2 ^ 33 < 2 ^ 64"

text \<open>A segment whose bio has its length, below 2 GiB. Its position is any number: the driver multiplies
  it by the sector size in 32 bits, so that the byte it starts at is its position modulo
  \<^term>\<open>(2::nat) ^ 23\<close> sectors.\<close>

definition segment_ok :: "segment \<Rightarrow> bool" where
  "segment_ok g \<longleftrightarrow> length (seg_data g) = 512 * unat (seg_sectors g) \<and> unat (seg_sectors g) < 2 ^ 22"

definition place :: "segment \<Rightarrow> nat" where
  "place g = 512 * (unat (seg_pos g) mod 2 ^ 23)"

definition in_disk :: "u8 list \<Rightarrow> segment \<Rightarrow> bool" where
  "in_disk d g \<longleftrightarrow> place g + 512 * unat (seg_sectors g) \<le> length d"

definition seg_apart :: "segment \<Rightarrow> segment \<Rightarrow> bool" where
  "seg_apart g h \<longleftrightarrow> place g + 512 * unat (seg_sectors g) \<le> place h \<or> place h + 512 * unat (seg_sectors h) \<le> place g"

text \<open>The block device contract: a segment inside the disk is copied to or from its place, one that
  reaches past the end leaves disk and bio alone; each is completed with result 0.\<close>

definition block_write :: "u8 list \<Rightarrow> segment \<Rightarrow> u8 list" where
  "block_write d g = (if seg_write g \<and> in_disk d g then buf_put d (place g) (seg_data g) else d)"

definition block_read :: "u8 list \<Rightarrow> segment \<Rightarrow> u8 list option" where
  "block_read d g =
     (if \<not> seg_write g \<and> in_disk d g then Some (buf_get (place g) (512 * unat (seg_sectors g)) d) else None)"

text \<open>What the source is told of a segment: the bytes of its bio, if it was read, then its completion;
  and the request it goes on with.\<close>

definition answered :: "('q, 'r) blk_ops \<Rightarrow> 'r \<Rightarrow> u8 list option \<Rightarrow> 'q \<Rightarrow> 'r option \<times> 'q" where
  "answered Q r bytes q =
     (let (left, q') = end_request_cur Q r 0 (case bytes of None \<Rightarrow> q | Some bs \<Rightarrow> bio_fill Q r bs q)
      in if left then (Some r, q') else get_request Q q')"

text \<open>The reference server: \<open>n\<close> segments of the source answered from a list of bytes. It returns the
  segments it was handed, the request and the source it ends with, and the bytes.\<close>

fun block_server ::
  "('q, 'r) blk_ops \<Rightarrow> nat \<Rightarrow> 'r option \<Rightarrow> 'q \<Rightarrow> u8 list \<Rightarrow> segment list \<times> 'r option \<times> 'q \<times> u8 list" where
  "block_server Q (Suc n) (Some r) q d =
     (let g = cur_segment Q q r;
          (rq', q') = answered Q r (block_read d g) q;
          (gs, rest) = block_server Q n rq' q' (block_write d g)
      in (g # gs, rest))"
| "block_server Q n rq q d = ([], rq, q, d)"

text \<open>A source for the witnesses. As \<^verbatim>\<open>blk_get_request\<close> does, it answers every call with a request and
  never with null: a write and a read of the same sector in turn.\<close>

definition seg_w :: segment where
  "seg_w = \<lparr>seg_pos = 1, seg_sectors = 1, seg_write = True, seg_data = replicate 512 7\<rparr>"

definition seg_r :: segment where
  "seg_r = \<lparr>seg_pos = 1, seg_sectors = 1, seg_write = False, seg_data = replicate 512 0\<rparr>"

record turn_source =
  turn :: nat
  cur :: segment
  completions :: "(segment \<times> int) list"

definition turn_ops :: "(turn_source, unit) blk_ops" where
  "turn_ops = \<lparr>get_request = \<lambda>q. (Some (), q\<lparr>turn := turn q + 1, cur := if even (turn q) then seg_w else seg_r\<rparr>),
     cur_segment = \<lambda>q _. cur q,
     bio_fill = \<lambda>_ bs q. q\<lparr>cur := (cur q)\<lparr>seg_data := bs\<rparr>\<rparr>,
     end_request_cur = \<lambda>_ res q. (False, q\<lparr>completions := completions q @ [(cur q, res)]\<rparr>)\<rparr>"

definition turn0 :: turn_source where
  "turn0 = \<lparr>turn = 1, cur = seg_w, completions = []\<rparr>"

definition ramdisk0 :: ramdisk_state where
  "ramdisk0 = \<lparr>held = [], mybdrv_ma_no = 252, diskmb = 256, disk_size = 1024, ramdisk = 0xffffc90000000000,
     disk = replicate 1024 0, my_gd = 0,
     gd_fields = \<lparr>gd_major = 0, first_minor = 0, disk_name = [], gd_queue = 0, capacity = 0\<rparr>,
     my_request_queue = 0, logical_block_size = 0\<rparr>"

text \<open>Loading with every kernel call granted or with the failures the driver cleans up after.\<close>

definition blk_env_ok :: "blk_env \<Rightarrow> ramdisk_state \<Rightarrow> bool" where
  "blk_env_ok e s \<longleftrightarrow> vmalloc_ret e = 0 \<or> queue_ret e = 0 \<or> (0 \<le> major_ret e \<and> gd_ret e \<noteq> 0)"

definition blk_loaded :: "resource multiset \<Rightarrow> ramdisk_state \<Rightarrow> bool" where
  "blk_loaded base s \<longleftrightarrow> ramdisk s \<noteq> 0 \<and>
     mset (held s) = {#Disk_added (my_gd s), Disk (my_gd s), Blkdev (mybdrv_ma_no s) MY_DEVICE_NAME,
       Queue (my_request_queue s), Vmalloc (ramdisk s)#} + base"

section \<open>Serving one segment\<close>

text \<open>The 32-bit offset and length of a segment.\<close>

lemma segment_arith:
  assumes "segment_ok g"
  shows "unat ((ucast (seg_pos g) :: u32) * ucast sector_size) = place g"
    and "unat (scast (seg_sectors g * ucast sector_size) :: u64) = 512 * unat (seg_sectors g)"
proof -
  have nr: "unat (seg_sectors g) < 2 ^ 22" using assms by (simp add: segment_ok_def)
  have size: "ucast sector_size = (512 :: u32)" by (simp add: sector_size_def)
  have wrap: "512 * (p mod 2 ^ 23) = 512 * (p mod 2 ^ 32) mod 2 ^ 32" for p :: nat
    by (simp add: mod_mod_cancel mult_mod_right)
  show "unat ((ucast (seg_pos g) :: u32) * ucast sector_size) = place g"
    unfolding size place_def wrap by (simp add: unat_word_ariths unat_ucast_mod mult.commute)
  have len: "unat (seg_sectors g * 512) = 512 * unat (seg_sectors g)" using nr by (simp add: unat_word_ariths)
  then show "unat (scast (seg_sectors g * ucast sector_size) :: u64) = 512 * unat (seg_sectors g)"
    using nr by (simp add: size unat_scast_small)
qed

lemma serve_ok:
  assumes "ramdisk_ok s" and "segment_ok g"
  shows "serve g s = Inr (block_read (disk s) g, s\<lparr>disk := block_write (disk s) g\<rparr>)"
proof -
  let ?off = "(ucast (seg_pos g) :: u32) * ucast sector_size"
  let ?sz = "seg_sectors g * ucast sector_size"
  let ?fin = "place g + 512 * unat (seg_sectors g)"
  have small: "?fin < 2 ^ 33" and len: "length (seg_data g) = 512 * unat (seg_sectors g)"
    using assms(2) by (auto simp: segment_ok_def place_def)
  have dsz: "length (disk s) = unat (disk_size s)" "unat (disk_size s) < 2 ^ 31"
    "unat (scast (disk_size s) :: u64) = unat (disk_size s)" and base: "unat (ramdisk s) + 2 ^ 33 < 2 ^ 64"
    using assms(1) by (auto simp: ramdisk_ok_def unat_scast_small)
  note arith = segment_arith [OF assms(2)]
  have "unat (ramdisk s + ucast ?off + scast ?sz) = unat (ramdisk s) + ?fin"
    using arith small base by (simp add: unat_word_ariths unat_ucast_mod)
  moreover have "unat (ramdisk s + scast (disk_size s)) = unat (ramdisk s) + length (disk s)"
    using dsz base by (simp add: unat_word_ariths)
  ultimately have guard: "ramdisk s + ucast ?off + scast ?sz > ramdisk s + scast (disk_size s) \<longleftrightarrow> \<not> in_disk (disk s) g"
    by (simp add: word_less_nat_alt in_disk_def not_le)
  show ?thesis
    using len arith guard
    by (auto simp: serve_def Let_def block_read_def block_write_def buf_put_def buf_get_def in_disk_def)
qed

lemma length_block_write [simp]: "segment_ok g \<Longrightarrow> length (block_write d g) = length d"
  by (auto simp: segment_ok_def block_write_def in_disk_def buf_simps)

lemma ramdisk_ok_write: "ramdisk_ok s \<Longrightarrow> segment_ok g \<Longrightarrow> ramdisk_ok (s\<lparr>disk := block_write (disk s) g\<rparr>)"
  by (simp add: ramdisk_ok_def)

section \<open>The passes of the loop\<close>

lemma request_pass_ok:
  assumes "ramdisk_ok s" and "segment_ok (cur_segment Q q r)"
  shows "request_pass Q r q s =
    (let g = cur_segment Q q r; (rq', q') = answered Q r (block_read (disk s) g) q
     in Inr (rq', q', s\<lparr>disk := block_write (disk s) g\<rparr>))"
  by (simp add: request_pass_def serve_ok [OF assms] answered_def Let_def split: prod.splits)

text \<open>The passes and the reference server go together.\<close>

lemma passes_refine:
  assumes "ramdisk_ok s" and "block_server Q n rq q (disk s) = (gs, rq', q', d')" and "\<forall>g \<in> set gs. segment_ok g"
  shows "request_passes Q n rq q s = Inr (rq', q', s\<lparr>disk := d'\<rparr>)"
  using assms
proof (induction Q n rq q s arbitrary: gs rule: request_passes.induct)
  case (1 Q n r q s)
  let ?g = "cur_segment Q q r"
  let ?s = "s\<lparr>disk := block_write (disk s) ?g\<rparr>"
  obtain rq1 q1 where next1: "answered Q r (block_read (disk s) ?g) q = (rq1, q1)" by fastforce
  obtain hs where rest: "block_server Q n rq1 q1 (disk ?s) = (hs, rq', q', d')" and gs: "gs = ?g # hs"
    using "1.prems"(2) next1 by (auto simp: Let_def split: prod.splits)
  have g: "segment_ok ?g" using "1.prems"(3) gs by simp
  have pass: "request_pass Q r q s = Inr (rq1, q1, ?s)"
    using request_pass_ok [OF "1.prems"(1) g] next1 by (simp add: Let_def)
  have "request_passes Q n rq1 q1 ?s = Inr (rq', q', ?s\<lparr>disk := d'\<rparr>)"
    using "1.IH" [OF pass refl refl _ rest] ramdisk_ok_write [OF "1.prems"(1) g] "1.prems"(3) gs by simp
  then show ?case using pass by simp
qed auto

lemma server_disk:
  "block_server Q n rq q d = (gs, rq', q', d') \<Longrightarrow> d' = foldl block_write d gs"
  by (induction Q n rq q d arbitrary: gs rule: block_server.induct) (auto simp: Let_def split: prod.splits)

text \<open>The loop gets to where its passes get.\<close>

lemma loop_passes:
  "request_passes Q n rq q s = Inr (rq', q', s') \<Longrightarrow> request_loop Q rq q s = request_loop Q rq' q' s'"
  by (induction Q n rq q s rule: request_passes.induct)
    (auto simp: request_loop.simps [of _ "Some _"] split: sum.splits prod.splits)

text \<open>Sectors that no write touches keep their bytes.\<close>

lemma block_write_apart:
  assumes "segment_ok g" and "seg_write g \<longrightarrow> seg_apart g h" and "in_disk d h"
  shows "buf_get (place h) (512 * unat (seg_sectors h)) (block_write d g) = buf_get (place h) (512 * unat (seg_sectors h)) d"
  using assms
  by (auto simp: block_write_def segment_ok_def seg_apart_def in_disk_def buf_simps)

lemma block_writes_apart:
  assumes "\<forall>g \<in> set gs. segment_ok g \<and> (seg_write g \<longrightarrow> seg_apart g h)" and "in_disk d h"
  shows "buf_get (place h) (512 * unat (seg_sectors h)) (foldl block_write d gs) = buf_get (place h) (512 * unat (seg_sectors h)) d
    \<and> length (foldl block_write d gs) = length d"
  using assms by (induction gs arbitrary: d) (simp_all add: block_write_apart in_disk_def)

section \<open>The module's life\<close>

text \<open>Serving requests changes the bytes of the disk only.\<close>

definition same_but_disk :: "ramdisk_state \<Rightarrow> ramdisk_state \<Rightarrow> bool" where
  "same_but_disk s s' \<longleftrightarrow> s' = s\<lparr>disk := disk s'\<rparr>"

lemma serve_keeps: "serve g s = Inr (b, s') \<Longrightarrow> same_but_disk s s'"
  by (auto simp: serve_def Let_def same_but_disk_def split: if_splits)

lemma same_but_disk_trans: "same_but_disk s s' \<Longrightarrow> same_but_disk s' s'' \<Longrightarrow> same_but_disk s s''"
  by (cases s; cases s'; cases s'') (simp add: same_but_disk_def)

lemma request_pass_keeps: "request_pass Q r q s = Inr (rq', q', s') \<Longrightarrow> same_but_disk s s'"
  using serve_keeps [of "cur_segment Q q r" s]
  by (auto simp: request_pass_def Let_def split: sum.splits prod.splits if_splits)

lemma blk_loaded_disk: "same_but_disk s s' \<Longrightarrow> blk_loaded base s \<Longrightarrow> blk_loaded base s'"
  by (cases s; cases s') (simp add: same_but_disk_def blk_loaded_def)

lemma my_exit_ok:
  assumes "blk_loaded base s"
  shows "\<exists>s'. my_exit s = Inr s' \<and> mset (held s') = base"
proof -
  have "set_mset (mset (held s)) \<supseteq> {Disk_added (my_gd s), Disk (my_gd s), Blkdev (mybdrv_ma_no s) MY_DEVICE_NAME,
      Queue (my_request_queue s), Vmalloc (ramdisk s)}"
    using assms by (auto simp: blk_loaded_def simp del: set_mset_mset)
  then have "Disk_added (my_gd s) \<in> set (held s)" "Disk (my_gd s) \<in> set (held s)"
    "Blkdev (mybdrv_ma_no s) MY_DEVICE_NAME \<in> set (held s)" "Queue (my_request_queue s) \<in> set (held s)"
    "Vmalloc (ramdisk s) \<in> set (held s)" by auto
  then show ?thesis
    using assms by (auto simp: my_exit_def release_def release_ptr_def blk_loaded_def in_set_remove1)
qed

interpretation blk: kmodule "\<lambda>s. mset (held s)" blk_env_ok my_init "blk_step Q" my_exit blk_loaded for Q
proof unfold_locales
  fix e :: blk_env and s s' :: ramdisk_state and r :: int
  assume env: "blk_env_ok e s"
  show "\<exists>r s'. my_init e s = Inr (r, s')"
    using env by (auto simp: my_init_def Let_def blk_env_ok_def ledger_simps release_ptr_def release_def acquire_def)
  assume ret: "my_init e s = Inr (r, s')"
  show "r \<noteq> 0 \<Longrightarrow> mset (held s') = mset (held s)"
    using env ret by (auto simp: my_init_def Let_def blk_env_ok_def release_ptr_def release_def acquire_def split: if_splits)
next
  fix e :: blk_env and s s' :: ramdisk_state
  assume "blk_env_ok e s" and "my_init e s = Inr (0, s')"
  then show "blk_loaded (mset (held s)) s'"
    by (auto simp: my_init_def Let_def blk_env_ok_def blk_loaded_def release_ptr_def release_def acquire_def split: if_splits)
next
  fix base and s s' :: ramdisk_state
  assume "blk_loaded base s" and "blk_step Q s s'"
  then show "blk_loaded base s'"
    by (auto elim!: blk_step.cases dest!: request_pass_keeps intro: blk_loaded_disk)
qed (rule my_exit_ok)

text \<open>A source that never runs dry keeps the loop from returning.\<close>

lemma request_loop_endless:
  assumes "request_loop Q rq q s = Some res" and "rq \<noteq> None"
    and "\<And>q. fst (get_request Q q) \<noteq> None"
  shows "\<exists>c. res = Inl c"
proof -
  have "Q' = Q \<and> rq \<noteq> None \<longrightarrow> (\<exists>c. res = Inl c)" if "request_loop Q' rq q s = Some res" for Q' q s
    by (rule request_loop.raw_induct [where P = "\<lambda>Q' rq q s res. Q' = Q \<and> rq \<noteq> None \<longrightarrow> (\<exists>c. res = Inl c)", OF _ that])
      (use assms(3) in \<open>auto simp: request_pass_def Let_def split: sum.splits prod.splits if_splits option.splits\<close>)
  then show ?thesis using assms(1,2) by blast
qed

lemma geometry_bits:
  "(ucast (signed_drop_bit 6 ((x :: u64) AND NOT 0x3f)) :: u16) = ucast (drop_bit 6 x)"
proof (rule bit_eqI)
  fix n assume "possible_bit TYPE(u16) n"
  then have n: "n < 16" by simp
  have "\<not> bit (mask 6 :: u64) (6 + n)" by (simp only: bit_mask_iff) simp
  then have "\<not> bit (0x3f :: u64) (6 + n)" by (simp add: mask_eq_exp_minus_1)
  then show "bit (ucast (signed_drop_bit 6 (x AND NOT 0x3f)) :: u16) n = bit (ucast (drop_bit 6 x) :: u16) n"
    using n by (auto simp: bit_simps)
qed

text \<open>Segments that stay inside the disk are all carried out.\<close>

lemma block_writes_inside:
  assumes "\<forall>g \<in> set gs. segment_ok g \<and> place g = 512 * unat (seg_pos g) \<and> place g + 512 * unat (seg_sectors g) \<le> m"
    and "length d = m"
  shows "foldl block_write d gs = foldl (\<lambda>d g. if seg_write g then buf_put d (512 * unat (seg_pos g)) (seg_data g) else d) d gs"
  using assms
proof (induction gs arbitrary: d)
  case (Cons g gs)
  then have "block_write d g = (if seg_write g then buf_put d (512 * unat (seg_pos g)) (seg_data g) else d)"
    by (simp add: block_write_def in_disk_def)
  moreover have "length (block_write d g) = m" using Cons.prems by simp
  then have "foldl block_write (block_write d g) gs =
      foldl (\<lambda>d g. if seg_write g then buf_put d (512 * unat (seg_pos g)) (seg_data g) else d) (block_write d g) gs"
    using Cons.prems(1) by (intro Cons.IH) auto
  ultimately show ?case by simp
qed simp

text \<open>The size computed from the module parameter, and the disk of a module that is loaded.\<close>

lemma sdiv_nonneg: "0 \<le> a \<Longrightarrow> 0 < b \<Longrightarrow> a sdiv b = a div (b :: int)"
  by (cases "a = 0") (simp_all add: signed_divide_int_def sgn_if)

lemma disk_size_mb:
  assumes "unat (mb :: u32) < 2048"
  shows "unat (mb * 1024 * 1024) = unat mb * 2 ^ 20"
  using assms by (simp add: unat_word_ariths)

lemma my_init_ok:
  assumes "0 < unat (diskmb s)" and "unat (diskmb s) < 2048"
    and "vmalloc_ret e \<noteq> 0" and "queue_ret e \<noteq> 0" and "0 \<le> major_ret e" and "gd_ret e \<noteq> 0"
    and "length (vmalloc_bytes e) = unat (diskmb s) * 2 ^ 20" and "unat (vmalloc_ret e) + 2 ^ 33 < 2 ^ 64"
  shows "\<exists>s1. my_init e s = Inr (0, s1) \<and> ramdisk_ok s1 \<and> disk s1 = vmalloc_bytes e
    \<and> gd_fields s1 = \<lparr>gd_major = major_ret e, first_minor = 0, disk_name = MY_DEVICE_NAME, gd_queue = queue_ret e,
        capacity = of_nat (2048 * unat (diskmb s))\<rparr>"
proof -
  let ?sz = "diskmb s * 1024 * 1024"
  have sz: "unat ?sz = unat (diskmb s) * 2 ^ 20" using disk_size_mb [OF assms(2)] .
  then have "sint ?sz = uint ?sz" using assms(2) by (intro sint_eq_uint_small) simp
  also have "\<dots> = int (unat (diskmb s) * 2 ^ 20)" unfolding sz [symmetric] by simp
  finally have eq: "sint ?sz = int (unat (diskmb s) * 2 ^ 20)" .
  have "sint ?sz sdiv uint sector_size = int (unat (diskmb s) * 2 ^ 20) div 512"
    unfolding eq by (subst sdiv_nonneg) (simp_all add: sector_size_def)
  then have "sint ?sz sdiv uint sector_size = int (2048 * unat (diskmb s))" by simp
  then have "(of_int (sint ?sz sdiv uint sector_size) :: u64) = of_nat (2048 * unat (diskmb s))"
    by (simp only: of_int_of_nat_eq)
  then show ?thesis
    using assms sz by (simp add: my_init_def Let_def acquire_def ramdisk_ok_def)
qed

section \<open>Properties\<close>

text \<open>C3. Over any request source, about which nothing is assumed, the first \<open>n\<close> passes of \<^verbatim>\<open>my_request\<close>
  are those of the reference server: they carry out exactly the segments handed out, in order, each
  write inside the disk put at its place, each read inside the disk filled from the disk as it is at
  that moment, each segment completed with result 0, and they change nothing but the bytes of the
  disk. No access leaves the disk or a bio, and \<^verbatim>\<open>my_request\<close> itself runs through this point. The
  segments handed out are of less than 2 GiB with bios of their length; their positions are taken
  modulo \<^term>\<open>(2::nat) ^ 23\<close> sectors, where the 32-bit product of the driver wraps.\<close>

theorem my_request_serves:
  assumes "ramdisk_ok s" and "get_request Q q = (rq0, q0)"
    and "block_server Q n rq0 q0 (disk s) = (gs, rq', q', d')" and "\<forall>g \<in> set gs. segment_ok g"
  shows "request_passes Q n rq0 q0 s = Inr (rq', q', s\<lparr>disk := d'\<rparr>)
    \<and> d' = foldl block_write (disk s) gs
    \<and> my_request Q q s = looping (request_loop Q rq' q' (s\<lparr>disk := d'\<rparr>))"
proof -
  have passes: "request_passes Q n rq0 q0 s = Inr (rq', q', s\<lparr>disk := d'\<rparr>)"
    using passes_refine [OF assms(1,3,4)] .
  then have "my_request Q q s = looping (request_loop Q rq' q' (s\<lparr>disk := d'\<rparr>))"
    using loop_passes [OF passes] assms(2) by (simp add: my_request_def)
  with passes show ?thesis using server_disk [OF assms(3)] by simp
qed

text \<open>C15. What is written is read back: after a pass that writes sectors inside the disk and any number of
  passes none of which writes to those sectors, a pass that reads them puts the written bytes in the bio of the
  read, completes it with result 0 and leaves the disk alone. Nothing is assumed of the request source.\<close>

theorem my_request_write_read:
  assumes "ramdisk_ok s" and "cur_segment Q q a = w" and "segment_ok w" and "seg_write w" and "in_disk (disk s) w"
    and "request_pass Q a q s = Inr (rq1, q1, s1)"
    and "block_server Q n rq1 q1 (disk s1) = (gs, Some b, q2, d)"
    and "\<forall>g \<in> set gs. segment_ok g \<and> (seg_write g \<longrightarrow> seg_apart g w)"
    and "cur_segment Q q2 b = r" and "segment_ok r" and "\<not> seg_write r"
    and "seg_pos r = seg_pos w" and "seg_sectors r = seg_sectors w"
  shows "\<exists>s2. request_passes Q n rq1 q1 s1 = Inr (Some b, q2, s2)
    \<and> (\<exists>rq3 q3. answered Q b (Some (seg_data w)) q2 = (rq3, q3) \<and> request_pass Q b q2 s2 = Inr (rq3, q3, s2))"
proof -
  have s1: "s1 = s\<lparr>disk := block_write (disk s) w\<rparr>"
    using request_pass_ok [of s Q q a] assms(1-3,6) by (auto simp: Let_def split: prod.splits)
  then have ok1: "ramdisk_ok s1" using ramdisk_ok_write assms(1,3) by simp
  let ?s2 = "s1\<lparr>disk := d\<rparr>"
  have passes: "request_passes Q n rq1 q1 s1 = Inr (Some b, q2, ?s2)"
    using passes_refine [OF ok1 assms(7)] assms(8) by simp
  have d: "d = foldl block_write (disk s1) gs" using server_disk [OF assms(7)] .
  have in1: "in_disk (disk s1) w" using assms(3,5) s1 by (simp add: in_disk_def)
  have same: "place r = place w" "in_disk d r" using assms(12,13) in1 block_writes_apart [OF assms(8) in1] d
    by (simp_all add: place_def in_disk_def)
  have "buf_get (place w) (512 * unat (seg_sectors w)) (disk s1) = seg_data w"
    using assms(3-5) s1 by (simp add: block_write_def in_disk_def segment_ok_def buf_simps)
  then have rd: "block_read d r = Some (seg_data w)" and wr: "block_write d r = d"
    using block_writes_apart [OF assms(8) in1] d same assms(11,13) by (simp_all add: block_read_def block_write_def)
  have "ramdisk_ok ?s2" using ok1 d block_writes_apart [OF assms(8) in1] by (simp add: ramdisk_ok_def)
  then have "request_pass Q b q2 ?s2 = (let (rq', q') = answered Q b (Some (seg_data w)) q2 in Inr (rq', q', ?s2))"
    using request_pass_ok [of ?s2 Q q2 b] assms(9,10) rd wr by (simp add: Let_def)
  then show ?thesis using passes by (auto split: prod.splits)
qed

text \<open>C24. Loading and serving together: with a size parameter from 1 to 2047 (MB) and the kernel granting what is
  asked for, loading announces a disk of exactly 2048 sectors per MB over the request queue. From then on every
  pass of the request loop over a segment that stays inside the announced capacity carries it out in full: the
  bytes of a write are at \<^term>\<open>512 * unat (seg_pos g)\<close> of the disk, the bio of a read has the bytes found there, and the
  products and pointers of the driver do not overflow. This holds for the first \<open>n\<close> passes, over any source.\<close>

theorem my_init_then_serves:
  assumes "0 < unat (diskmb s)" and "unat (diskmb s) < 2048"
    and "vmalloc_ret e \<noteq> 0" and "queue_ret e \<noteq> 0" and "0 \<le> major_ret e" and "gd_ret e \<noteq> 0"
    and "length (vmalloc_bytes e) = unat (diskmb s) * 2 ^ 20" and "unat (vmalloc_ret e) + 2 ^ 33 < 2 ^ 64"
    and "block_server Q n rq q (vmalloc_bytes e) = (gs, rq', q', d')"
    and "\<forall>g \<in> set gs. length (seg_data g) = 512 * unat (seg_sectors g)
      \<and> unat (seg_pos g) + unat (seg_sectors g) \<le> 2048 * unat (diskmb s)"
  shows "\<exists>s1. my_init e s = Inr (0, s1) \<and> unat (capacity (gd_fields s1)) = 2048 * unat (diskmb s)
    \<and> gd_queue (gd_fields s1) = queue_ret e
    \<and> request_passes Q n rq q s1 = Inr (rq', q', s1\<lparr>disk := d'\<rparr>)
    \<and> d' = foldl (\<lambda>d g. if seg_write g then buf_put d (512 * unat (seg_pos g)) (seg_data g) else d) (vmalloc_bytes e) gs
    \<and> (\<forall>g \<in> set gs. in_disk (disk s1) g \<and> place g = 512 * unat (seg_pos g))"
proof -
  obtain s1 where s1: "my_init e s = Inr (0, s1)" "ramdisk_ok s1" "disk s1 = vmalloc_bytes e"
      "gd_fields s1 = \<lparr>gd_major = major_ret e, first_minor = 0, disk_name = MY_DEVICE_NAME, gd_queue = queue_ret e,
        capacity = of_nat (2048 * unat (diskmb s))\<rparr>"
    using my_init_ok [OF assms(1-8)] by blast
  have cap: "unat (of_nat (2048 * unat (diskmb s)) :: u64) = 2048 * unat (diskmb s)"
    using assms(2) by (simp add: unat_of_nat del: of_nat_mult)
  have fits: "\<forall>g \<in> set gs. segment_ok g \<and> place g = 512 * unat (seg_pos g)
      \<and> place g + 512 * unat (seg_sectors g) \<le> unat (diskmb s) * 2 ^ 20"
    using assms(2,10) by (fastforce simp: segment_ok_def place_def)
  have "request_passes Q n rq q s1 = Inr (rq', q', s1\<lparr>disk := d'\<rparr>)"
    using passes_refine [OF s1(2), of Q n rq q gs rq' q' d'] s1(3) assms(9) fits by simp
  moreover have "d' = foldl (\<lambda>d g. if seg_write g then buf_put d (512 * unat (seg_pos g)) (seg_data g) else d) (vmalloc_bytes e) gs"
    unfolding server_disk [OF assms(9)] using fits assms(7) by (rule block_writes_inside)
  moreover have "\<forall>g \<in> set gs. in_disk (disk s1) g \<and> place g = 512 * unat (seg_pos g)"
    using fits s1(3) assms(7) unfolding in_disk_def by metis
  ultimately show ?thesis using s1(1,4) cap by auto
qed

text \<open>A size parameter of 4096 makes the 32-bit product zero: the disk announced has no sectors.\<close>

theorem my_init_size_wraps:
  assumes "diskmb s = 4096" and "vmalloc_ret e \<noteq> 0" and "queue_ret e \<noteq> 0" and "0 \<le> major_ret e" and "gd_ret e \<noteq> 0"
  shows "\<exists>s1. my_init e s = Inr (0, s1) \<and> disk_size s1 = 0 \<and> capacity (gd_fields s1) = 0"
  using assms by (simp add: my_init_def Let_def acquire_def sector_size_def signed_divide_int_def)

text \<open>Loading the RAM disk, serving requests and unloading it any number of times leaves the
  ledger of kernel resources unchanged, for loads in which the kernel grants everything or fails to
  give the memory or the queue.\<close>

lemma blkdev_lifetimes:
  assumes "(lifetime blk_env_ok my_init (blk_step Q) my_exit)\<^sup>*\<^sup>* s s'"
  shows "mset (held s') = mset (held s)"
  using assms by (rule blk.lifetimes_balanced)

text \<open>When \<^verbatim>\<open>register_blkdev\<close> or \<^verbatim>\<open>alloc_disk\<close> fails, \<^verbatim>\<open>my_init\<close> returns an error but keeps the request
  queue it has created: the module is discarded and the queue is leaked.\<close>

theorem my_init_leaks_queue:
  assumes "vmalloc_ret e \<noteq> 0" and "queue_ret e \<noteq> 0" and "major_ret e < 0 \<or> gd_ret e = 0"
  shows "\<exists>r s'. my_init e s = Inr (r, s') \<and> r < 0 \<and> mset (held s') = add_mset (Queue (queue_ret e)) (mset (held s))"
  using assms by (auto simp: my_init_def Let_def release_ptr_def release_def acquire_def)

text \<open>C34. The request loop never returns over a source that never answers null, which is what
  \<^verbatim>\<open>blk_get_request\<close>, the call the driver uses, does: it allocates a request.\<close>

theorem my_request_never_returns:
  assumes "\<forall>q. fst (get_request Q q) \<noteq> None"
  shows "\<nexists>q' s'. my_request Q q s = Inr (q', s')"
  using request_loop_endless [of Q "fst (get_request Q q)" "snd (get_request Q q)" s] assms
  by (auto simp: my_request_def looping_def split: option.splits)

text \<open>The cylinder count that \<^verbatim>\<open>HDIO_GETGEO\<close> reports is the disk size over 64 bytes, cut to 16 bits:
  it is exact below 4 MiB only, and it is 0 for the default size of 256 MiB. Any other command is
  \<^verbatim>\<open>-ENOTTY\<close>.\<close>

theorem my_ioctl_geometry:
  "my_ioctl copy_fails cmd s =
     (if cmd \<noteq> HDIO_GETGEO then (- ENOTTY, None)
      else if copy_fails then (- EFAULT, None)
      else (0, Some \<lparr>heads = 2, sectors = 16,
        cylinders = of_nat (unat (scast (disk_size s) :: u64) div 64 mod 2 ^ 16), start = 4\<rparr>))
   \<and> (disk_size s = 256 * 1024 * 1024 \<longrightarrow>
        my_ioctl False HDIO_GETGEO s = (0, Some \<lparr>heads = 2, sectors = 16, cylinders = 0, start = 4\<rparr>))"
proof -
  have cyl: "(ucast (drop_bit 6 x) :: u16) = of_nat (unat x div 64 mod 2 ^ 16)" for x :: u64
    by (rule word_unat_eq_iff [THEN iffD2]) (simp add: unat_ucast_mod unat_of_nat unat_drop_bit_eq drop_bit_eq_div unat_div)
  have "my_ioctl c k t = (if k \<noteq> HDIO_GETGEO then (- ENOTTY, None)
      else if c then (- EFAULT, None)
      else (0, Some \<lparr>heads = 2, sectors = 16,
        cylinders = of_nat (unat (scast (disk_size t) :: u64) div 64 mod 2 ^ 16), start = 4\<rparr>))" for c k t
    unfolding my_ioctl_def Let_def geometry_bits cyl by simp
  then show ?thesis by simp
qed

section \<open>Witnesses\<close>

lemma ramdisk0_ok: "ramdisk_ok ramdisk0" "segment_ok seg_w" "segment_ok seg_r"
  by (simp_all add: ramdisk_ok_def ramdisk0_def segment_ok_def seg_w_def seg_r_def)

theorem my_request_serves_witness:
  "\<exists>gs rq' q' d'. block_server turn_ops 3 (Some ()) turn0 (disk ramdisk0) = (gs, rq', q', d')
    \<and> gs = [seg_w, seg_r, seg_w] \<and> rq' = Some ()
    \<and> request_passes turn_ops 3 (Some ()) turn0 ramdisk0 = Inr (rq', q', ramdisk0\<lparr>disk := d'\<rparr>)
    \<and> my_request turn_ops (turn0\<lparr>turn := 0\<rparr>) ramdisk0 = looping (request_loop turn_ops rq' q' (ramdisk0\<lparr>disk := d'\<rparr>))"
proof -
  obtain gs rq' q' d' where run: "block_server turn_ops 3 (Some ()) turn0 (disk ramdisk0) = (gs, rq', q', d')"
    by (meson prod_cases4)
  then have gs: "gs = [seg_w, seg_r, seg_w]" "rq' = Some ()"
    by (auto simp: turn_ops_def turn0_def answered_def numeral_3_eq_3 Let_def split: option.splits prod.splits)
  have "get_request turn_ops (turn0\<lparr>turn := 0\<rparr>) = (Some (), turn0)" by (simp add: turn_ops_def turn0_def)
  from my_request_serves [OF ramdisk0_ok(1) this run] gs ramdisk0_ok run show ?thesis by simp
qed

theorem my_request_write_read_witness:
  "\<exists>s1 q2 s2. request_passes turn_ops 0 (Some ()) (snd (get_request turn_ops (turn0\<lparr>completions := [(seg_w, 0)]\<rparr>))) s1 = Inr (Some (), q2, s2)
    \<and> (\<exists>rq3 q3. answered turn_ops () (Some (replicate 512 7)) q2 = (rq3, q3) \<and> request_pass turn_ops () q2 s2 = Inr (rq3, q3, s2)
         \<and> completions q3 = [(seg_w, 0), (seg_r\<lparr>seg_data := replicate 512 7\<rparr>, 0)])"
proof -
  let ?q1 = "snd (get_request turn_ops (turn0\<lparr>completions := [(seg_w, 0)]\<rparr>))"
  let ?s1 = "ramdisk0\<lparr>disk := block_write (disk ramdisk0) seg_w\<rparr>"
  have w: "cur_segment turn_ops turn0 () = seg_w" "seg_write seg_w" "in_disk (disk ramdisk0) seg_w" "block_read (disk ramdisk0) seg_w = None"
    by (simp_all add: turn_ops_def turn0_def seg_w_def ramdisk0_def in_disk_def place_def block_read_def)
  have r: "cur_segment turn_ops ?q1 () = seg_r" "\<not> seg_write seg_r" "seg_pos seg_r = seg_pos seg_w" "seg_sectors seg_r = seg_sectors seg_w"
    by (simp_all add: turn_ops_def turn0_def seg_w_def seg_r_def)
  have first: "request_pass turn_ops () turn0 ramdisk0 = Inr (Some (), ?q1, ?s1)"
    using request_pass_ok [OF ramdisk0_ok(1), of turn_ops turn0 "()"] w ramdisk0_ok(2)
    by (simp add: answered_def turn_ops_def turn0_def)
  have "block_server turn_ops 0 (Some ()) ?q1 (disk ?s1) = ([], Some (), ?q1, disk ?s1)" by simp
  from my_request_write_read [OF ramdisk0_ok(1) w(1) ramdisk0_ok(2) w(2,3) first this _ r(1) ramdisk0_ok(3) r(2-4)]
  obtain s2 rq3 q3 where second: "request_passes turn_ops 0 (Some ()) ?q1 ?s1 = Inr (Some (), ?q1, s2)"
      "answered turn_ops () (Some (seg_data seg_w)) ?q1 = (rq3, q3)" "request_pass turn_ops () ?q1 s2 = Inr (rq3, q3, s2)" by auto
  have "completions q3 = [(seg_w, 0), (seg_r\<lparr>seg_data := seg_data seg_w\<rparr>, 0)]"
    using second(2) by (auto simp: answered_def turn_ops_def turn0_def)
  with second show ?thesis by (auto simp: seg_w_def)
qed

lemma blkdev_lifetimes_runs:
  "\<exists>s'. lifetime blk_env_ok my_init (blk_step turn_ops) my_exit ramdisk0 s' \<and> mset (held s') = {#}"
proof -
  define e where "e = \<lparr>vmalloc_ret = 0x1000, vmalloc_bytes = [], queue_ret = 1, major_ret = 252, gd_ret = 2\<rparr>"
  have env: "blk_env_ok e ramdisk0" by (simp add: blk_env_ok_def e_def)
  have "\<exists>s1. my_init e ramdisk0 = Inr (0, s1)" by (simp add: my_init_def e_def Let_def)
  then obtain s' where life: "lifetime blk_env_ok my_init (blk_step turn_ops) my_exit ramdisk0 s'"
    using blk.lifetime_exists [OF env] by blast
  then have "mset (held s') = mset (held ramdisk0)" by (intro blkdev_lifetimes) (rule r_into_rtranclp)
  with life show ?thesis by (auto simp: ramdisk0_def)
qed

theorem my_init_leaks_queue_witness:
  "\<exists>r s'. my_init \<lparr>vmalloc_ret = 0x1000, vmalloc_bytes = [], queue_ret = 1, major_ret = - 16, gd_ret = 0\<rparr> ramdisk0
     = Inr (r, s') \<and> r < 0 \<and> mset (held s') = add_mset (Queue 1) {#}"
  using my_init_leaks_queue [of "\<lparr>vmalloc_ret = 0x1000, vmalloc_bytes = [], queue_ret = 1, major_ret = - 16, gd_ret = 0\<rparr>" ramdisk0]
  by (simp add: ramdisk0_def)

theorem my_request_never_returns_witness:
  "\<nexists>q' s'. my_request turn_ops turn0 ramdisk0 = Inr (q', s')"
  by (rule my_request_never_returns) (simp add: turn_ops_def)

theorem my_ioctl_geometry_witness:
  "my_ioctl False HDIO_GETGEO (ramdisk0\<lparr>disk_size := 256 * 1024 * 1024\<rparr>) =
     (0, Some \<lparr>heads = 2, sectors = 16, cylinders = 0, start = 4\<rparr>)"
  using my_ioctl_geometry [of False HDIO_GETGEO "ramdisk0\<lparr>disk_size := 256 * 1024 * 1024\<rparr>"] by simp

theorem my_init_then_serves_witness:
  "\<exists>s1 rq' q' d'. my_init \<lparr>vmalloc_ret = 0x1000, vmalloc_bytes = replicate (2 ^ 20) 0, queue_ret = 1, major_ret = 252, gd_ret = 2\<rparr>
      (ramdisk0\<lparr>diskmb := 1\<rparr>) = Inr (0, s1)
    \<and> unat (capacity (gd_fields s1)) = 2048 \<and> request_passes turn_ops 2 (Some ()) turn0 s1 = Inr (rq', q', s1\<lparr>disk := d'\<rparr>)
    \<and> d' = buf_put (replicate (2 ^ 20) 0) 512 (replicate 512 7)"
proof -
  let ?s = "ramdisk0\<lparr>diskmb := 1\<rparr>"
  let ?e = "\<lparr>vmalloc_ret = 0x1000, vmalloc_bytes = replicate (2 ^ 20) 0, queue_ret = 1, major_ret = 252, gd_ret = 2\<rparr>"
  obtain gs rq' q' d' where run: "block_server turn_ops 2 (Some ()) turn0 (vmalloc_bytes ?e) = (gs, rq', q', d')"
    by (meson prod_cases4)
  have gs: "gs = [seg_w, seg_r]" using run
    by (auto simp: turn_ops_def turn0_def answered_def numeral_2_eq_2 Let_def simp del: replicate.simps
        split: option.splits prod.splits)
  have segs: "\<forall>g \<in> set gs. length (seg_data g) = 512 * unat (seg_sectors g) \<and> unat (seg_pos g) + unat (seg_sectors g) \<le> 2048 * unat (diskmb ?s)"
    by (simp add: gs seg_w_def seg_r_def)
  have mb: "unat (diskmb ?s) = 1" by simp
  have bytes: "length (vmalloc_bytes ?e) = unat (diskmb ?s) * 2 ^ 20"
    unfolding mb by (simp only: blk_env.select_convs length_replicate mult_1)
  have addr: "unat (vmalloc_ret ?e) + 2 ^ 33 < 2 ^ 64" by simp
  have fold: "foldl (\<lambda>d g. if seg_write g then buf_put d (512 * unat (seg_pos g)) (seg_data g) else d) d gs
      = buf_put d 512 (replicate 512 7)" for d by (simp add: gs seg_w_def seg_r_def)
  show ?thesis
    using my_init_then_serves [of ?s ?e, OF _ _ _ _ _ _ bytes addr run segs] unfolding mb fold by auto
qed

end
