(* ===== verification/Msgdev.thy ===== *)
theory Msgdev
  imports Cformat Lifecycle
begin

text \<open>
  What \<^verbatim>\<open>src/code/mydev/cdev/mycdev.c\<close> and \<^verbatim>\<open>src/code/mydev/mdev/mymdev.c\<close> share: both offer a 1024-byte
  message buffer of which user space can read and write the first 64 bytes, and both are exercised by
  the program \<^verbatim>\<open>mycdev_user.c\<close> (the two directories hold the same file). The interface between driver and
  program is the locale \<open>msgdev\<close>; the program is proved correct once, over it, and each driver interprets
  it. The user's memory is the list of bytes from the address handed to the system call on; how many of
  the 64 bytes \<^verbatim>\<open>copy_to_user\<close> and \<^verbatim>\<open>copy_from_user\<close> manage to copy is an argument.
\<close>

section \<open>The drivers' common state\<close>

record chardev = kernel +
  pbuf :: u64
  pbuf_bytes :: "u8 list"      \<comment> \<open>the 1024 bytes at \<^verbatim>\<open>pbuf\<close>\<close>
  klog :: "string list"

definition printk :: "string \<Rightarrow> 'a chardev_scheme \<Rightarrow> 'a chardev_scheme" where
  "printk l s = s\<lparr>klog := klog s @ [l]\<rparr>"

text \<open>\<^verbatim>\<open>memset\<close> of a fresh buffer and \<^verbatim>\<open>sprintf\<close> of the greeting; a null buffer is a crash.\<close>

definition fill_pbuf :: "'a chardev_scheme \<Rightarrow> crash + 'a chardev_scheme" where
  "fill_pbuf s =
     (if pbuf s = 0 then Inl Null_deref
      else Inr (s\<lparr>pbuf_bytes := buf_put (replicate 1024 0) 0 (cstr ''value from kernel ....'')\<rparr>))"

text \<open>The device numbers of \<^verbatim>\<open>linux/kdev_t.h\<close>.\<close>

definition MAJOR :: "u32 \<Rightarrow> nat" where
  "MAJOR dev = unat (drop_bit 20 dev)"

definition MINOR :: "u32 \<Rightarrow> nat" where
  "MINOR dev = unat (take_bit 20 dev)"

section \<open>The user program\<close>

text \<open>A read system call as the program sees it: return value and the new buffer; a write system call:
  return value and the new device.\<close>

type_synonym 's dev_read = "u64 \<Rightarrow> nat \<Rightarrow> u8 list \<Rightarrow> 's \<Rightarrow> crash + int \<times> u8 list \<times> 's"
type_synonym 's dev_write = "u64 \<Rightarrow> nat \<Rightarrow> u8 list \<Rightarrow> 's \<Rightarrow> crash + int \<times> 's"

text \<open>\<^verbatim>\<open>printf("%s")\<close> of a buffer that holds no zero byte runs past it.\<close>

definition show_string :: "u8 list \<Rightarrow> crash + string" where
  "show_string b = (if 0 \<in> set b then Inr (string_at b) else Inl Bad_access)"

text \<open>\<^verbatim>\<open>main\<close> of \<^verbatim>\<open>mycdev_user.c\<close>: exit status, lines printed, device afterwards. \<open>buf0\<close> is what the stack
  holds where \<^verbatim>\<open>buf\<close> is.\<close>

definition mycdev_user_main ::
  "'s dev_read \<Rightarrow> 's dev_write \<Rightarrow> int \<Rightarrow> u8 list \<Rightarrow> 's \<Rightarrow> crash + int \<times> string list \<times> 's" where
  "mycdev_user_main rd wr fd buf0 s =
     (if fd < 0 then Inr (-1, [''open fail ...fd ='' @ fmt_d fd @ '', ''], s)
      else
        andThen (rd 64 64 buf0 s) (\<lambda>(_, buf1, s1).
        andThen (show_string buf1) (\<lambda>str.
        andThen (wr 64 64 (buf_put buf1 0 (cstr ''write from user......'')) s1) (\<lambda>(_, s2).
          Inr (0, [''read from kernel : '' @ str], s2)))))"

section \<open>The interface\<close>

locale msgdev =
  fixes rd :: "'s dev_read" and wr :: "'s dev_write"
    and contents :: "'s \<Rightarrow> u8 list" and log :: "'s \<Rightarrow> string list" and ok :: "'s \<Rightarrow> bool"
  assumes ok_contents: "ok s \<Longrightarrow> length (contents s) = 1024 \<and> 0 \<in> set (contents s)"
    and rd_64: "ok s \<Longrightarrow> 64 \<le> length u \<Longrightarrow> \<exists>s'. rd n 64 u s = Inr (0, buf_put u 0 (buf_get 0 64 (contents s)), s')
      \<and> ok s' \<and> contents s' = contents s"
    and wr_64: "ok s \<Longrightarrow> 64 \<le> length u \<Longrightarrow> \<exists>s'. wr n 64 u s = Inr (0, s') \<and> ok s'
      \<and> contents s' = buf_put (contents s) 0 (buf_get 0 64 u)
      \<and> last (log s') = ''user context:'' @ string_at (contents s')"
begin

text \<open>One run of the program on a device whose message is a string \<open>t\<close>: it shows \<open>t\<close> and leaves its own
  message, which the driver shows too.\<close>

lemma user_run:
  assumes "ok s" and "length buf0 = 64" and "0 \<le> fd" and "0 \<in> set (take 64 (contents s))"
  shows "\<exists>s'. mycdev_user_main rd wr fd buf0 s = Inr (0, [''read from kernel : '' @ string_at (contents s)], s')
    \<and> ok s' \<and> string_at (contents s') = ''write from user......''
    \<and> 0 \<in> set (take 64 (contents s'))
    \<and> last (log s') = ''user context:write from user......''"
proof -
  let ?t = "''write from user......''"
  let ?b1 = "take 64 (contents s)"
  let ?b2 = "buf_put ?b1 0 (cstr ?t)"
  have c: "length (contents s) = 1024" using ok_contents assms(1) by blast
  then have b1: "buf_put buf0 0 (buf_get 0 64 (contents s)) = ?b1" and len: "length ?b1 = 64"
    using assms(2) by (simp_all add: buf_get_def buf_put_def)
  have b2: "length ?b2 = 64" using len by (simp add: buf_simps)
  obtain s1 where s1: "rd 64 64 buf0 s = Inr (0, ?b1, s1)" "ok s1" "contents s1 = contents s"
    using rd_64 [OF assms(1), of buf0 64] assms(2) b1 by auto
  obtain s2 where s2: "wr 64 64 ?b2 s1 = Inr (0, s2)" "ok s2"
      "contents s2 = buf_put (contents s1) 0 (buf_get 0 64 ?b2)"
      "last (log s2) = ''user context:'' @ string_at (contents s2)"
    using wr_64 [OF s1(2), of ?b2 64] b2 by auto
  have text_size: "length (cstr ?t) \<le> 64" by (simp add: cstr_def)
  have new: "contents s2 = cstr ?t @ drop (length (cstr ?t)) ?b1 @ drop 64 (contents s)"
    using s2(3) s1(3) b2 c text_size by (simp add: buf_get_def buf_put_def del: length_map)
  have "string_at (contents s2) = ?t" unfolding new by (rule string_at_cstr) simp
  moreover have "0 \<in> set (take 64 (contents s2))" unfolding new by (simp add: cstr_def)
  moreover have "show_string ?b1 = Inr (string_at (contents s))"
    using assms(4) string_at_take [of 64 "contents s"] by (simp add: show_string_def)
  ultimately show ?thesis
    using s1 s2 assms(3) by (auto simp: mycdev_user_main_def)
qed

text \<open>On a message of 64 bytes without a zero the program runs past its buffer.\<close>

lemma user_overrun:
  assumes "ok s" and "length buf0 = 64" and "0 \<le> fd" and "0 \<notin> set (take 64 (contents s))"
  shows "mycdev_user_main rd wr fd buf0 s = Inl Bad_access"
proof -
  have "length (contents s) = 1024" using ok_contents assms(1) by blast
  then have "buf_put buf0 0 (buf_get 0 64 (contents s)) = take 64 (contents s)"
    using assms(2) by (simp add: buf_get_def buf_put_def)
  then obtain s1 where "rd 64 64 buf0 s = Inr (0, take 64 (contents s), s1)"
    using rd_64 [OF assms(1), of buf0 64] assms(2) by auto
  then show ?thesis using assms(3,4) by (simp add: mycdev_user_main_def show_string_def)
qed

end

section \<open>The buffer of a loaded driver\<close>

text \<open>The last 960 bytes are never written, so the message always ends inside the buffer.\<close>

definition pbuf_ok :: "'a chardev_scheme \<Rightarrow> bool" where
  "pbuf_ok s \<longleftrightarrow> pbuf s \<noteq> 0 \<and> length (pbuf_bytes s) = 1024 \<and> drop 64 (pbuf_bytes s) = replicate 960 0"

lemma held_printk [simp]: "held (printk l s) = held s"
  by (simp add: printk_def)

lemma printk_fields [simp]:
  "pbuf (printk l s) = pbuf s" "pbuf_bytes (printk l s) = pbuf_bytes s" "klog (printk l s) = klog s @ [l]"
  by (simp_all add: printk_def)

lemma pbuf_ok_zero: "pbuf_ok s \<Longrightarrow> 0 \<in> set (pbuf_bytes s)"
proof -
  assume "pbuf_ok s"
  then have "0 \<in> set (drop 64 (pbuf_bytes s))" by (simp add: pbuf_ok_def)
  then show ?thesis by (rule in_set_dropD)
qed

lemma pbuf_ok_put:
  "pbuf_ok s \<Longrightarrow> length u \<le> 64 \<Longrightarrow> pbuf_ok (s\<lparr>pbuf_bytes := buf_put (pbuf_bytes s) 0 u\<rparr>)"
  by (simp add: pbuf_ok_def buf_put_def)

lemma pbuf_ok_printk [simp]: "pbuf_ok (printk l s) = pbuf_ok s"
  by (simp add: pbuf_ok_def printk_def)

lemma fill_pbuf_ok:
  assumes "pbuf s \<noteq> 0"
  shows "\<exists>s'. fill_pbuf s = Inr s' \<and> pbuf_ok s' \<and> string_at (pbuf_bytes s') = ''value from kernel ....''
     \<and> 0 \<in> set (take 64 (pbuf_bytes s')) \<and> held s' = held s \<and> pbuf s' = pbuf s"
proof -
  let ?t = "''value from kernel ....''"
  have b: "buf_put (replicate 1024 0) 0 (cstr ?t) = cstr ?t @ replicate (1024 - length (cstr ?t)) 0"
    by (simp add: buf_put_def)
  have "string_at (cstr ?t @ replicate (1024 - length (cstr ?t)) 0) = ?t" by (rule string_at_cstr) simp
  then show ?thesis
    using assms unfolding fill_pbuf_def b by (simp add: pbuf_ok_def) (simp add: cstr_def)
qed

end
