(* ===== verification/Cdev.thy ===== *)
theory Cdev
  imports Msgdev
begin

text \<open>
  \<^verbatim>\<open>src/code/mydev/cdev/mycdev.c\<close>: the message buffer as a character device with a region of device
  numbers of its own. The driver interprets \<open>msgdev\<close> (so the user program's lemmas hold for it) and, for
  the kernel answers it handles, the module contract of \<open>Lifecycle\<close>.
\<close>

section \<open>The driver\<close>

definition DEV_NAME :: string where
  "DEV_NAME = ''my_dev_name''"

definition dev_cnt :: int where
  "dev_cnt = 1"

record cdev_state = chardev +
  my_dev :: u32
  my_cdev :: u64

definition mycdev_open :: "u32 \<Rightarrow> cdev_state \<Rightarrow> int \<times> cdev_state" where
  "mycdev_open i_rdev s =
     (0, printk (''mycdev_open: major='' @ fmt_u (MAJOR i_rdev) @ '', minor='' @ fmt_u (MINOR i_rdev)) s)"

definition mycdev_read :: "cdev_state dev_read" where
  "mycdev_read lbuf copied buf s =
     (if pbuf s = 0 then Inl Null_deref
      else Inr (0, buf_put buf 0 (take copied (buf_get 0 64 (pbuf_bytes s))), printk ''mycdev_read enter'' s))"

definition mycdev_write :: "cdev_state dev_write" where
  "mycdev_write cnt copied buf s =
     (if pbuf s = 0 then Inl Null_deref
      else
        let s1 = printk ''mycdev_write enter'' s;
            s2 = s1\<lparr>pbuf_bytes := buf_put (pbuf_bytes s1) 0 (take copied (buf_get 0 64 buf))\<rparr>
        in andThen (show_string (pbuf_bytes s2)) (\<lambda>str. Inr (0, printk (''user context:'' @ str) s2)))"

text \<open>The answers of the kernel while the module loads.\<close>

record cdev_env =
  region_ret :: int
  region_dev :: u32
  cdev_ret :: u64
  add_ret :: int
  vmalloc_ret :: u64

definition unregister_region :: "int \<Rightarrow> cdev_state \<Rightarrow> crash + int \<times> cdev_state" where
  "unregister_region ret s = andThen (release (Chrdev_region (my_dev s) dev_cnt) s) (\<lambda>s1. Inr (ret, s1))"

definition mycdev_init :: "cdev_env \<Rightarrow> cdev_state \<Rightarrow> crash + int \<times> cdev_state" where
  "mycdev_init e s =
     (let s0 = printk ''mycdev_init module entry...'' s
      in if region_ret e \<noteq> 0 then Inr (region_ret e, printk ''alloc chrdev fail.'' s0)
         else
           let s1 = acquire (Chrdev_region (region_dev e) dev_cnt) s0\<lparr>my_dev := region_dev e, my_cdev := cdev_ret e\<rparr>
           in if cdev_ret e = 0 then unregister_region (region_ret e) (printk ''cdev alloc fail'' s1)
              else
                let s2 = acquire (Cdev (cdev_ret e)) s1
                in if add_ret e \<noteq> 0 then
                     andThen (release (Cdev (my_cdev s2)) (printk ''cdev add fail'' s2)) (unregister_region (add_ret e))
                   else
                     let area = vmalloc_ret e;
                         s3 = (if area = 0 then s2 else acquire (Vmalloc area) s2)\<lparr>pbuf := area\<rparr>
                     in andThen (fill_pbuf s3) (\<lambda>s4. Inr (0,
                          printk (''Major number = '' @ fmt_u (MAJOR (my_dev s4)) @ '',minor number = '' @ fmt_u (MINOR (my_dev s4)))
                            (printk (''successed register char device: '' @ DEV_NAME) (printk ''mycdev add suc...'' s4)))))"

definition mycdev_exit :: "cdev_state \<Rightarrow> crash + cdev_state" where
  "mycdev_exit s =
     (let s0 = printk ''mycdev_exit =========================================='' s
      in andThen (if my_cdev s0 \<noteq> 0 then release (Cdev (my_cdev s0)) s0 else Inr s0) (\<lambda>s1.
         andThen (release (Chrdev_region (my_dev s1) dev_cnt) s1) (\<lambda>s2.
           release_ptr Vmalloc (pbuf s2) s2)))"

inductive cdev_step :: "cdev_state \<Rightarrow> cdev_state \<Rightarrow> bool" where
  step_open: "mycdev_open i_rdev s = (r, s') \<Longrightarrow> cdev_step s s'"
| step_read: "mycdev_read n k buf s = Inr (r, buf', s') \<Longrightarrow> cdev_step s s'"
| step_write: "mycdev_write n k buf s = Inr (r, s') \<Longrightarrow> cdev_step s s'"

section \<open>Invariant and fixtures\<close>

definition cdev_env_ok :: "cdev_env \<Rightarrow> cdev_state \<Rightarrow> bool" where
  "cdev_env_ok e s \<longleftrightarrow> region_ret e \<noteq> 0 \<or> (cdev_ret e \<noteq> 0 \<and> (add_ret e \<noteq> 0 \<or> vmalloc_ret e \<noteq> 0))"

definition cdev_loaded :: "resource multiset \<Rightarrow> cdev_state \<Rightarrow> bool" where
  "cdev_loaded base s \<longleftrightarrow> pbuf_ok s \<and> my_cdev s \<noteq> 0 \<and>
     mset (held s) = {#Vmalloc (pbuf s), Cdev (my_cdev s), Chrdev_region (my_dev s) dev_cnt#} + base"

definition cdev0 :: cdev_state where
  "cdev0 = \<lparr>held = [], pbuf = 0, pbuf_bytes = [], klog = [], my_dev = 0, my_cdev = 0\<rparr>"

definition cdev_env0 :: cdev_env where
  "cdev_env0 = \<lparr>region_ret = 0, region_dev = 0xf100000, cdev_ret = 1, add_ret = 0, vmalloc_ret = 0x1000\<rparr>"

section \<open>Lemmas\<close>

lemma cdev_printk_fields [simp]:
  "my_dev (printk l s) = my_dev s" "my_cdev (printk l s) = my_cdev s"
  by (simp_all add: printk_def)

lemma mycdev_write_ok:
  assumes "pbuf_ok s"
  shows "\<exists>s'. mycdev_write n k u s = Inr (0, s') \<and> pbuf_ok s'
    \<and> pbuf_bytes s' = buf_put (pbuf_bytes s) 0 (take k (buf_get 0 64 u))
    \<and> last (klog s') = ''user context:'' @ string_at (pbuf_bytes s')
    \<and> held s' = held s \<and> pbuf s' = pbuf s \<and> my_cdev s' = my_cdev s \<and> my_dev s' = my_dev s"
proof -
  let ?s = "printk ''mycdev_write enter'' s\<lparr>pbuf_bytes := buf_put (pbuf_bytes s) 0 (take k (buf_get 0 64 u))\<rparr>"
  have "pbuf_ok (s\<lparr>pbuf_bytes := buf_put (pbuf_bytes s) 0 (take k (buf_get 0 64 u))\<rparr>)"
    by (rule pbuf_ok_put [OF assms]) (simp add: buf_get_def)
  then have "pbuf_ok ?s" by (simp add: pbuf_ok_def)
  with pbuf_ok_zero [OF this] assms show ?thesis
    by (simp add: mycdev_write_def Let_def show_string_def pbuf_ok_def printk_def)
qed

interpretation cd: msgdev mycdev_read mycdev_write pbuf_bytes klog pbuf_ok
proof unfold_locales
  fix s :: cdev_state and u :: "u8 list" and n :: u64
  assume ok: "pbuf_ok s"
  show "length (pbuf_bytes s) = 1024 \<and> 0 \<in> set (pbuf_bytes s)"
    using ok pbuf_ok_zero by (simp add: pbuf_ok_def)
  have "pbuf s \<noteq> 0" using ok by (simp add: pbuf_ok_def)
  then show "\<exists>s'. mycdev_read n 64 u s = Inr (0, buf_put u 0 (buf_get 0 64 (pbuf_bytes s)), s')
      \<and> pbuf_ok s' \<and> pbuf_bytes s' = pbuf_bytes s"
    using ok by (simp add: mycdev_read_def buf_get_def)
  assume "64 \<le> length u"
  then show "\<exists>s'. mycdev_write n 64 u s = Inr (0, s') \<and> pbuf_ok s'
      \<and> pbuf_bytes s' = buf_put (pbuf_bytes s) 0 (buf_get 0 64 u)
      \<and> last (klog s') = ''user context:'' @ string_at (pbuf_bytes s')"
    using mycdev_write_ok [OF ok, of n 64 u] by (auto simp: buf_get_def)
qed

lemma mycdev_init_ok:
  assumes "region_ret e = 0" and "cdev_ret e \<noteq> 0" and "add_ret e = 0" and "vmalloc_ret e \<noteq> 0"
  shows "\<exists>s'. mycdev_init e s = Inr (0, s') \<and> cdev_loaded (mset (held s)) s'
    \<and> string_at (pbuf_bytes s') = ''value from kernel ....'' \<and> 0 \<in> set (take 64 (pbuf_bytes s'))"
proof -
  let ?s = "acquire (Vmalloc (vmalloc_ret e)) (acquire (Cdev (cdev_ret e))
    (acquire (Chrdev_region (region_dev e) dev_cnt) (printk ''mycdev_init module entry...'' s)
      \<lparr>my_dev := region_dev e, my_cdev := cdev_ret e\<rparr>))\<lparr>pbuf := vmalloc_ret e\<rparr>"
  have "fill_pbuf ?s = Inr (?s\<lparr>pbuf_bytes := buf_put (replicate 1024 0) 0 (cstr ''value from kernel ....'')\<rparr>)"
    using assms by (simp add: fill_pbuf_def)
  with fill_pbuf_ok [of ?s] assms show ?thesis
    by (simp add: mycdev_init_def Let_def cdev_loaded_def acquire_def)
qed

lemma cdev_step_loaded:
  assumes "cdev_loaded base s" and "cdev_step s s'"
  shows "cdev_loaded base s'"
  using assms(2)
proof cases
  case (step_write n k buf r)
  then show ?thesis using mycdev_write_ok [of s n k buf] assms(1) by (auto simp: cdev_loaded_def)
qed (use assms(1) in \<open>auto simp: cdev_loaded_def mycdev_open_def mycdev_read_def split: if_splits\<close>)

lemma mycdev_exit_ok:
  assumes "cdev_loaded base s"
  shows "\<exists>s'. mycdev_exit s = Inr s' \<and> mset (held s') = base"
proof -
  have "set_mset (mset (held s)) \<supseteq> {Vmalloc (pbuf s), Cdev (my_cdev s), Chrdev_region (my_dev s) dev_cnt}"
    using assms by (auto simp: cdev_loaded_def simp del: set_mset_mset)
  then have "Vmalloc (pbuf s) \<in> set (held s)" "Cdev (my_cdev s) \<in> set (held s)"
    "Chrdev_region (my_dev s) dev_cnt \<in> set (held s)" by auto
  then show ?thesis
    using assms by (auto simp: mycdev_exit_def Let_def release_def release_ptr_def cdev_loaded_def pbuf_ok_def in_set_remove1)
qed

lemma mycdev_init_failed:
  assumes "region_ret e \<noteq> 0 \<or> (cdev_ret e \<noteq> 0 \<and> add_ret e \<noteq> 0)"
  shows "\<exists>r s'. mycdev_init e s = Inr (r, s') \<and> r \<noteq> 0 \<and> held s' = held s"
  using assms by (auto simp: mycdev_init_def Let_def unregister_region_def release_def acquire_def printk_def)

interpretation cdm: kmodule "\<lambda>s. mset (held s)" cdev_env_ok mycdev_init cdev_step mycdev_exit cdev_loaded
proof unfold_locales
  fix e and s s' :: cdev_state and r :: int
  assume env: "cdev_env_ok e s"
  then consider "region_ret e \<noteq> 0 \<or> (cdev_ret e \<noteq> 0 \<and> add_ret e \<noteq> 0)"
    | "region_ret e = 0" "cdev_ret e \<noteq> 0" "add_ret e = 0" "vmalloc_ret e \<noteq> 0"
    by (auto simp: cdev_env_ok_def)
  note split = this mycdev_init_failed [of e s] mycdev_init_ok [of e s]
  show "\<exists>r s'. mycdev_init e s = Inr (r, s')" using split by metis
  assume ret: "mycdev_init e s = Inr (r, s')"
  show "r \<noteq> 0 \<Longrightarrow> mset (held s') = mset (held s)" using split ret by fastforce
next
  fix e and s s' :: cdev_state
  assume "cdev_env_ok e s" and "mycdev_init e s = Inr (0, s')"
  then show "cdev_loaded (mset (held s)) s'"
    using mycdev_init_failed [of e s] mycdev_init_ok [of e s] by (fastforce simp: cdev_env_ok_def)
qed (auto intro: cdev_step_loaded mycdev_exit_ok)

section \<open>Properties\<close>

text \<open>C16. Driver and user program together: after the driver is loaded, a first run of
  \<^verbatim>\<open>mycdev_user\<close> prints the driver's greeting and exits with 0, a second run prints the message the
  first one left, and the driver logs that message.\<close>

theorem cdev_user_runs:
  assumes "region_ret e = 0" and "cdev_ret e \<noteq> 0" and "add_ret e = 0" and "vmalloc_ret e \<noteq> 0"
    and "0 \<le> fd" and "0 \<le> fd'" and "length stack = 64" and "length stack' = 64"
  shows "\<exists>s1 s2 s3. mycdev_init e s = Inr (0, s1)
    \<and> mycdev_user_main mycdev_read mycdev_write fd stack s1 = Inr (0, [''read from kernel : value from kernel ....''], s2)
    \<and> mycdev_user_main mycdev_read mycdev_write fd' stack' s2 = Inr (0, [''read from kernel : write from user......''], s3)
    \<and> last (klog s3) = ''user context:write from user......''"
proof -
  obtain s1 where s1: "mycdev_init e s = Inr (0, s1)" "pbuf_ok s1" "0 \<in> set (take 64 (pbuf_bytes s1))"
      "string_at (pbuf_bytes s1) = ''value from kernel ....''"
    using mycdev_init_ok [OF assms(1-4), of s] by (auto simp: cdev_loaded_def)
  obtain s2 where s2: "mycdev_user_main mycdev_read mycdev_write fd stack s1 =
      Inr (0, [''read from kernel : '' @ string_at (pbuf_bytes s1)], s2)" "pbuf_ok s2"
      "string_at (pbuf_bytes s2) = ''write from user......''" "0 \<in> set (take 64 (pbuf_bytes s2))"
    using cd.user_run [OF s1(2) assms(7,5) s1(3)] by blast
  obtain s3 where "mycdev_user_main mycdev_read mycdev_write fd' stack' s2 =
      Inr (0, [''read from kernel : '' @ string_at (pbuf_bytes s2)], s3)"
      "last (klog s3) = ''user context:write from user......''"
    using cd.user_run [OF s2(2) assms(8,6) s2(4)] by blast
  then show ?thesis using s1 s2 by auto
qed

text \<open>Loading the character device, using it and unloading it any number of times leaves the ledger
  of kernel resources unchanged, for every outcome of the kernel calls except a failing
  \<^verbatim>\<open>cdev_alloc\<close> or \<^verbatim>\<open>vmalloc\<close>.\<close>

lemma cdev_lifetimes:
  assumes "(lifetime cdev_env_ok mycdev_init cdev_step mycdev_exit)\<^sup>*\<^sup>* s s'"
  shows "mset (held s') = mset (held s)"
  using assms by (rule cdm.lifetimes_balanced)

text \<open>When \<^verbatim>\<open>cdev_alloc\<close> fails the error path returns the 0 of the call before it: the module counts as
  loaded with its device numbers already given back, and unloading it gives them back a second time.\<close>

theorem mycdev_alloc_fail_double_release:
  assumes "region_ret e = 0" and "cdev_ret e = 0" and "Chrdev_region (region_dev e) dev_cnt \<notin> set (held s)"
  shows "\<exists>s'. mycdev_init e s = Inr (0, s') \<and> held s' = held s \<and> mycdev_exit s' = Inl Bad_release"
  using assms by (simp add: mycdev_init_def mycdev_exit_def Let_def unregister_region_def release_def acquire_def printk_def)

text \<open>\<^verbatim>\<open>mycdev_read\<close> ignores the length it is given: with 64 bytes of user memory mapped, a read of
  \<open>lbuf < 64\<close> bytes returns 0 (end of file) and overwrites the bytes behind the caller's buffer with the
  message.\<close>

theorem mycdev_read_overruns:
  assumes "pbuf_ok s" and "unat lbuf \<le> i" and "i < 64" and "64 \<le> length buf"
  shows "\<exists>buf' s'. mycdev_read lbuf 64 buf s = Inr (0, buf', s') \<and> length buf' = length buf \<and> buf' ! i = pbuf_bytes s ! i"
proof -
  obtain s' where "mycdev_read lbuf 64 buf s = Inr (0, buf_put buf 0 (buf_get 0 64 (pbuf_bytes s)), s')"
    using cd.rd_64 [OF assms(1,4)] by blast
  moreover have "length (buf_get 0 64 (pbuf_bytes s)) = 64" using assms(1) by (simp add: pbuf_ok_def buf_simps)
  ultimately show ?thesis
    using assms by (simp add: buf_simps nth_buf_put nth_buf_get pbuf_ok_def)
qed

section \<open>Witnesses\<close>

lemma cdev_loads: "\<exists>s1. mycdev_init cdev_env0 cdev0 = Inr (0, s1)"
  using mycdev_init_ok [of cdev_env0 cdev0] by (auto simp: cdev_env0_def)

theorem cdev_user_runs_witness:
  "\<exists>s1 s2 s3. mycdev_init cdev_env0 cdev0 = Inr (0, s1)
    \<and> mycdev_user_main mycdev_read mycdev_write 3 (replicate 64 0xcc) s1 = Inr (0, [''read from kernel : value from kernel ....''], s2)
    \<and> mycdev_user_main mycdev_read mycdev_write 4 (replicate 64 0) s2 = Inr (0, [''read from kernel : write from user......''], s3)
    \<and> last (klog s3) = ''user context:write from user......''"
  by (rule cdev_user_runs) (simp_all add: cdev_env0_def)

lemma cdev_lifetimes_runs:
  "\<exists>s'. lifetime cdev_env_ok mycdev_init cdev_step mycdev_exit cdev0 s' \<and> mset (held s') = {#}"
proof -
  have "cdev_env_ok cdev_env0 cdev0" by (simp add: cdev_env_ok_def cdev_env0_def)
  then obtain s' where life: "lifetime cdev_env_ok mycdev_init cdev_step mycdev_exit cdev0 s'"
    using cdm.lifetime_exists cdev_loads by blast
  then have "mset (held s') = mset (held cdev0)" by (intro cdev_lifetimes) (rule r_into_rtranclp)
  with life show ?thesis by (auto simp: cdev0_def)
qed

theorem mycdev_alloc_fail_double_release_witness:
  "\<exists>s'. mycdev_init (cdev_env0\<lparr>cdev_ret := 0\<rparr>) cdev0 = Inr (0, s') \<and> held s' = [] \<and> mycdev_exit s' = Inl Bad_release"
  using mycdev_alloc_fail_double_release [of "cdev_env0\<lparr>cdev_ret := 0\<rparr>" cdev0] by (simp add: cdev_env0_def cdev0_def)

theorem mycdev_read_overruns_witness:
  "\<exists>buf' s'. mycdev_read 10 64 (replicate 100 0xff) (cdev0\<lparr>pbuf := 0x1000, pbuf_bytes := replicate 1024 0\<rparr>) = Inr (0, buf', s')
    \<and> buf' ! 20 = 0"
  using mycdev_read_overruns [of "cdev0\<lparr>pbuf := 0x1000, pbuf_bytes := replicate 1024 0\<rparr>" 10 20 "replicate 100 0xff"]
  by (auto simp: pbuf_ok_def)

end
