(* ===== verification/Mdev.thy ===== *)
theory Mdev
  imports Msgdev
begin

text \<open>
  \<^verbatim>\<open>src/code/mydev/mdev/mymdev.c\<close>: the same message buffer as a misc device. Its file operations carry
  the names of \<^verbatim>\<open>mycdev.c\<close> in the source (\<^verbatim>\<open>mycdev_open\<close>, \<^verbatim>\<open>mycdev_read\<close>, \<^verbatim>\<open>mycdev_write\<close>); they are
  \<open>misc_open\<close>, \<open>misc_read\<close> and \<open>misc_write\<close> here.
\<close>

section \<open>The driver\<close>

definition MISC_DEV_NAME :: string where
  "MISC_DEV_NAME = ''my_dev''"

definition misc_open :: "u32 \<Rightarrow> chardev \<Rightarrow> int \<times> chardev" where
  "misc_open i_rdev s =
     (0, printk (''mycdev_open: major='' @ fmt_u (MAJOR i_rdev) @ '', minor='' @ fmt_u (MINOR i_rdev)) s)"

definition misc_read :: "chardev dev_read" where
  "misc_read lbuf copied buf s =
     (if pbuf s = 0 then Inl Null_deref
      else Inr (0, buf_put buf 0 (take copied (buf_get 0 64 (pbuf_bytes s))), printk ''mycdev_read enter'' s))"

definition misc_write :: "chardev dev_write" where
  "misc_write cnt copied buf s =
     (if pbuf s = 0 then Inl Null_deref
      else
        let s1 = printk ''mycdev_write enter'' s;
            s2 = s1\<lparr>pbuf_bytes := buf_put (pbuf_bytes s1) 0 (take copied (buf_get 0 64 buf))\<rparr>
        in andThen (show_string (pbuf_bytes s2)) (\<lambda>str. Inr (0, printk (''user context:'' @ str) s2)))"

text \<open>The answers of the kernel while the module loads; \<open>misc_devt\<close> and \<open>misc_minor\<close> are the numbers
  \<^verbatim>\<open>misc_register\<close> leaves in the device.\<close>

record mdev_env =
  misc_ret :: int
  misc_devt :: u32
  misc_minor :: u32
  vmalloc_ret :: u64

definition mymdev_init :: "mdev_env \<Rightarrow> chardev \<Rightarrow> crash + int \<times> chardev" where
  "mymdev_init e s =
     (let s0 = printk ''mymdev_init module entry...'' s
      in if misc_ret e \<noteq> 0 then Inr (misc_ret e, printk ''register my misc device fail.'' s0)
         else
           let s1 = acquire (Miscdev MISC_DEV_NAME) s0;
               area = vmalloc_ret e;
               s2 = (if area = 0 then s1 else acquire (Vmalloc area) s1)\<lparr>pbuf := area\<rparr>
           in andThen (fill_pbuf s2) (\<lambda>s3. Inr (0,
                printk (''Major number = '' @ fmt_u (MAJOR (misc_devt e)) @ '',minor number = '' @ fmt_u (MINOR (misc_minor e)))
                  (printk (''successed register misc device: '' @ MISC_DEV_NAME) (printk ''mycdev add suc...'' s3)))))"

definition mymdev_exit :: "chardev \<Rightarrow> crash + chardev" where
  "mymdev_exit s =
     andThen (release (Miscdev MISC_DEV_NAME) (printk ''mymdev_exit =========================================='' s)) (\<lambda>s1.
       release_ptr Vmalloc (pbuf s1) s1)"

text \<open>The user program of this directory (the same text as that of \<^verbatim>\<open>cdev\<close>) on this driver.\<close>

definition misc_user_main :: "int \<Rightarrow> u8 list \<Rightarrow> chardev \<Rightarrow> crash + int \<times> string list \<times> chardev" where
  "misc_user_main = mycdev_user_main misc_read misc_write"

inductive mdev_step :: "chardev \<Rightarrow> chardev \<Rightarrow> bool" where
  mstep_open: "misc_open i_rdev s = (r, s') \<Longrightarrow> mdev_step s s'"
| mstep_read: "misc_read n k buf s = Inr (r, buf', s') \<Longrightarrow> mdev_step s s'"
| mstep_write: "misc_write n k buf s = Inr (r, s') \<Longrightarrow> mdev_step s s'"

section \<open>Invariant and fixtures\<close>

definition mdev_env_ok :: "mdev_env \<Rightarrow> chardev \<Rightarrow> bool" where
  "mdev_env_ok e s \<longleftrightarrow> misc_ret e \<noteq> 0 \<or> vmalloc_ret e \<noteq> 0"

definition mdev_loaded :: "resource multiset \<Rightarrow> chardev \<Rightarrow> bool" where
  "mdev_loaded base s \<longleftrightarrow> pbuf_ok s \<and> mset (held s) = {#Vmalloc (pbuf s), Miscdev MISC_DEV_NAME#} + base"

definition mdev0 :: chardev where
  "mdev0 = \<lparr>held = [], pbuf = 0, pbuf_bytes = [], klog = []\<rparr>"

definition mdev_env0 :: mdev_env where
  "mdev_env0 = \<lparr>misc_ret = 0, misc_devt = 0xa00039, misc_minor = 57, vmalloc_ret = 0x1000\<rparr>"

section \<open>Lemmas\<close>

lemma misc_write_ok:
  assumes "pbuf_ok s"
  shows "\<exists>s'. misc_write n k u s = Inr (0, s') \<and> pbuf_ok s'
    \<and> pbuf_bytes s' = buf_put (pbuf_bytes s) 0 (take k (buf_get 0 64 u))
    \<and> last (klog s') = ''user context:'' @ string_at (pbuf_bytes s') \<and> held s' = held s \<and> pbuf s' = pbuf s"
proof -
  let ?s = "printk ''mycdev_write enter'' s\<lparr>pbuf_bytes := buf_put (pbuf_bytes s) 0 (take k (buf_get 0 64 u))\<rparr>"
  have "pbuf_ok (s\<lparr>pbuf_bytes := buf_put (pbuf_bytes s) 0 (take k (buf_get 0 64 u))\<rparr>)"
    by (rule pbuf_ok_put [OF assms]) (simp add: buf_get_def)
  then have "pbuf_ok ?s" by (simp add: pbuf_ok_def)
  with pbuf_ok_zero [OF this] assms show ?thesis
    by (simp add: misc_write_def Let_def show_string_def pbuf_ok_def printk_def)
qed

interpretation md: msgdev misc_read misc_write pbuf_bytes klog pbuf_ok
proof unfold_locales
  fix s :: chardev and u :: "u8 list" and n :: u64
  assume ok: "pbuf_ok s"
  show "length (pbuf_bytes s) = 1024 \<and> 0 \<in> set (pbuf_bytes s)"
    using ok pbuf_ok_zero by (simp add: pbuf_ok_def)
  have "pbuf s \<noteq> 0" using ok by (simp add: pbuf_ok_def)
  then show "\<exists>s'. misc_read n 64 u s = Inr (0, buf_put u 0 (buf_get 0 64 (pbuf_bytes s)), s')
      \<and> pbuf_ok s' \<and> pbuf_bytes s' = pbuf_bytes s"
    using ok by (simp add: misc_read_def buf_get_def)
  assume "64 \<le> length u"
  then show "\<exists>s'. misc_write n 64 u s = Inr (0, s') \<and> pbuf_ok s'
      \<and> pbuf_bytes s' = buf_put (pbuf_bytes s) 0 (buf_get 0 64 u)
      \<and> last (klog s') = ''user context:'' @ string_at (pbuf_bytes s')"
    using misc_write_ok [OF ok, of n 64 u] by (auto simp: buf_get_def)
qed

lemma mymdev_init_ok:
  assumes "misc_ret e = 0" and "vmalloc_ret e \<noteq> 0"
  shows "\<exists>s'. mymdev_init e s = Inr (0, s') \<and> mdev_loaded (mset (held s)) s'"
proof -
  let ?s = "acquire (Vmalloc (vmalloc_ret e)) (acquire (Miscdev MISC_DEV_NAME)
    (printk ''mymdev_init module entry...'' s))\<lparr>pbuf := vmalloc_ret e\<rparr>"
  show ?thesis
    using fill_pbuf_ok [of ?s] assms
    by (auto simp: mymdev_init_def Let_def mdev_loaded_def acquire_def)
qed

lemma mymdev_exit_ok:
  assumes "mdev_loaded base s"
  shows "\<exists>s'. mymdev_exit s = Inr s' \<and> mset (held s') = base"
proof -
  have "set_mset (mset (held s)) \<supseteq> {Vmalloc (pbuf s), Miscdev MISC_DEV_NAME}"
    using assms by (auto simp: mdev_loaded_def simp del: set_mset_mset)
  then have "Vmalloc (pbuf s) \<in> set (held s)" "Miscdev MISC_DEV_NAME \<in> set (held s)" by auto
  then show ?thesis
    using assms by (auto simp: mymdev_exit_def release_def release_ptr_def mdev_loaded_def pbuf_ok_def in_set_remove1)
qed

lemma mdev_step_loaded:
  assumes "mdev_loaded base s" and "mdev_step s s'"
  shows "mdev_loaded base s'"
  using assms(2)
proof cases
  case (mstep_write n k buf r)
  then show ?thesis using misc_write_ok [of s n k buf] assms(1) by (auto simp: mdev_loaded_def)
qed (use assms(1) in \<open>auto simp: mdev_loaded_def misc_open_def misc_read_def split: if_splits\<close>)

interpretation mdm: kmodule "\<lambda>s. mset (held s)" mdev_env_ok mymdev_init mdev_step mymdev_exit mdev_loaded
proof unfold_locales
  fix e and s s' :: chardev and r :: int
  assume env: "mdev_env_ok e s"
  show "\<exists>r s'. mymdev_init e s = Inr (r, s')"
    using env mymdev_init_ok [of e s] by (cases "misc_ret e = 0") (auto simp: mdev_env_ok_def mymdev_init_def Let_def)
  assume ret: "mymdev_init e s = Inr (r, s')"
  show "r \<noteq> 0 \<Longrightarrow> mset (held s') = mset (held s)"
    using env ret mymdev_init_ok [of e s]
    by (cases "misc_ret e = 0") (auto simp: mdev_env_ok_def mymdev_init_def Let_def)
next
  fix e and s s' :: chardev
  assume "mdev_env_ok e s" and "mymdev_init e s = Inr (0, s')"
  then show "mdev_loaded (mset (held s)) s'"
    using mymdev_init_ok [of e s]
    by (cases "misc_ret e = 0") (auto simp: mdev_env_ok_def mymdev_init_def Let_def)
qed (auto intro: mdev_step_loaded mymdev_exit_ok)

section \<open>Properties\<close>

text \<open>Loading the misc device, using it and unloading it any number of times leaves the ledger of
  kernel resources unchanged, unless \<^verbatim>\<open>vmalloc\<close> fails (which the driver does not check).\<close>

lemma mdev_lifetimes:
  assumes "(lifetime mdev_env_ok mymdev_init mdev_step mymdev_exit)\<^sup>*\<^sup>* s s'"
  shows "mset (held s') = mset (held s)"
  using assms by (rule mdm.lifetimes_balanced)

text \<open>The user program on a misc device whose 64-byte message holds no zero byte runs past the end of
  its stack buffer: neither driver nor program terminates the message.\<close>

theorem mdev_user_overrun:
  assumes "pbuf_ok s" and "length msg = 64" and "0 \<notin> set msg" and "0 \<le> fd" and "length stack = 64"
  shows "\<exists>s1. misc_write 64 64 msg s = Inr (0, s1)
    \<and> misc_user_main fd stack s1 = Inl Bad_access"
proof -
  obtain s1 where s1: "misc_write 64 64 msg s = Inr (0, s1)" "pbuf_ok s1"
      "pbuf_bytes s1 = buf_put (pbuf_bytes s) 0 (buf_get 0 64 msg)"
    using md.wr_64 [OF assms(1), of msg 64] assms(2) by auto
  then have "take 64 (pbuf_bytes s1) = msg" using assms(2) by (simp add: buf_get_def buf_put_def)
  then show ?thesis using md.user_overrun [OF s1(2) assms(5,4)] assms(3) s1(1) by (auto simp: misc_user_main_def)
qed

section \<open>Witnesses\<close>

lemma mdev_lifetimes_runs:
  "\<exists>s'. lifetime mdev_env_ok mymdev_init mdev_step mymdev_exit mdev0 s' \<and> mset (held s') = {#}"
proof -
  have "mdev_env_ok mdev_env0 mdev0" by (simp add: mdev_env_ok_def mdev_env0_def)
  moreover have "\<exists>s1. mymdev_init mdev_env0 mdev0 = Inr (0, s1)"
    using mymdev_init_ok [of mdev_env0 mdev0] by (auto simp: mdev_env0_def)
  ultimately obtain s' where life: "lifetime mdev_env_ok mymdev_init mdev_step mymdev_exit mdev0 s'"
    using mdm.lifetime_exists by blast
  then have "mset (held s') = mset (held mdev0)" by (intro mdev_lifetimes) (rule r_into_rtranclp)
  with life show ?thesis by (auto simp: mdev0_def)
qed

theorem mdev_user_overrun_witness:
  "\<exists>s1. misc_write 64 64 (replicate 64 0x41) (mdev0\<lparr>pbuf := 0x1000, pbuf_bytes := replicate 1024 0\<rparr>) = Inr (0, s1)
    \<and> misc_user_main 3 (replicate 64 0) s1 = Inl Bad_access"
  by (rule mdev_user_overrun) (simp_all add: pbuf_ok_def)

end
