(* ===== verification/Monitor.thy ===== *)
theory Monitor
  imports Cformat Lifecycle "HOL-Library.Signed_Division"
begin

text \<open>
  \<^verbatim>\<open>src/code/monitor/monitor.c\<close>: a timer that fires every 10 ms, looks at the load average and, when the
  load is at least 1, dumps the stacks of the running and the uninterruptible tasks, at most once every
  three seconds. One firing of the timer is a \<open>tick\<close>: what the two \<^verbatim>\<open>ktime_get\<close> calls return (nanoseconds
  since boot), the three load averages and the tasks each of the two thread loops visits. How a stack address is
  printed (\<^verbatim>\<open>stack_trace_print\<close>) is a parameter.
\<close>

section \<open>The module\<close>

definition FSHIFT :: nat where
  "FSHIFT = 11"

definition FIXED_1 :: u64 where
  "FIXED_1 = push_bit FSHIFT 1"

definition LOAD_INT :: "u64 \<Rightarrow> u64" where
  "LOAD_INT x = drop_bit FSHIFT x"

definition LOAD_FRAC :: "u64 \<Rightarrow> u64" where
  "LOAD_FRAC x = LOAD_INT ((x AND (FIXED_1 - 1)) * 100)"

definition BACKTRACE_DEPTH :: nat where
  "BACKTRACE_DEPTH = 20"

text \<open>Task states of \<^verbatim>\<open>linux/sched.h\<close>.\<close>

abbreviation TASK_RUNNING :: u64 where "TASK_RUNNING \<equiv> 0"
abbreviation TASK_UNINTERRUPTIBLE :: u64 where "TASK_UNINTERRUPTIBLE \<equiv> 2"

record task =
  state :: u64
  comm :: string
  pid :: int
  stack :: "u64 list"         \<comment> \<open>what a stack walk of the task finds\<close>

record tick =
  now :: int                  \<comment> \<open>the first \<^verbatim>\<open>ktime_get\<close> of \<^verbatim>\<open>check_load\<close>\<close>
  now2 :: int                 \<comment> \<open>the second one\<close>
  avenrun :: "u64 \<times> u64 \<times> u64"
  threads :: "task list"       \<comment> \<open>what the first thread loop visits\<close>
  threads2 :: "task list"      \<comment> \<open>what the second one visits: the list is live\<close>

record monitor = kernel +
  ptr_avenrun :: u64
  last_dump :: int            \<comment> \<open>\<^verbatim>\<open>static ktime_t last\<close>\<close>
  klines :: "string list"

definition load_text :: "u64 \<Rightarrow> string" where
  "load_text x = fmt_u (unat (LOAD_INT x)) @ ''.'' @ zpad 2 (fmt_u (unat (LOAD_FRAC x)))"

text \<open>The first \<^verbatim>\<open>BACKTRACE_DEPTH\<close> entries of a task's stack, one line each.\<close>

definition trace_lines :: "(u64 \<Rightarrow> string) \<Rightarrow> task \<Rightarrow> string list" where
  "trace_lines show_addr p = map show_addr (take BACKTRACE_DEPTH (stack p))"

definition task_line :: "string \<Rightarrow> task \<Rightarrow> string" where
  "task_line what p = what @ '' task, comm: '' @ comm p @ '', pid '' @ fmt_d (pid p)"

text \<open>The two thread loops of \<^verbatim>\<open>print_all_task_stack\<close>.\<close>

fun dump_running :: "(u64 \<Rightarrow> string) \<Rightarrow> task list \<Rightarrow> string list" where
  "dump_running show_addr [] = []"
| "dump_running show_addr (p # ps) =
     (if state p = TASK_RUNNING then task_line ''running'' p # trace_lines show_addr p else []) @ dump_running show_addr ps"

fun dump_uninterrupted :: "(u64 \<Rightarrow> string) \<Rightarrow> task list \<Rightarrow> string list" where
  "dump_uninterrupted show_addr [] = []"
| "dump_uninterrupted show_addr (p # ps) =
     (if state p AND TASK_UNINTERRUPTIBLE \<noteq> 0 then task_line ''uninterrupted'' p # trace_lines show_addr p else []) @
     dump_uninterrupted show_addr ps"

definition print_all_task_stack :: "(u64 \<Rightarrow> string) \<Rightarrow> tick \<Rightarrow> monitor \<Rightarrow> monitor" where
  "print_all_task_stack show_addr t s =
     (case avenrun t of (a0, a1, a2) \<Rightarrow>
        s\<lparr>klines := klines s @
          [''!!!!!!!!!!!!!!!!!!!!!!!!!!!!!!!'',
           [CHR 0x09] @ ''Load: '' @ load_text a0 @ '', '' @ load_text a1 @ '', '' @ load_text a2,
           ''dump all task: balabala'', ''dump running task.''] @
          dump_running show_addr (threads t) @
          [''dump uninterrupted task.''] @
          dump_uninterrupted show_addr (threads2 t)\<rparr>)"

definition check_load :: "(u64 \<Rightarrow> string) \<Rightarrow> tick \<Rightarrow> monitor \<Rightarrow> monitor" where
  "check_load show_addr t s =
     (let load = sint (ucast (LOAD_INT (fst (avenrun t))) :: u32);
          ms = of_int ((now t - last_dump s) sdiv 1000000) :: u64
      in if load < 1 then s
         else if ms < 3 * 1000 then s
         else print_all_task_stack show_addr t (s\<lparr>last_dump := now2 t\<rparr>))"

text \<open>The timer function always asks to be restarted.\<close>

definition monitor_handler :: "(u64 \<Rightarrow> string) \<Rightarrow> tick \<Rightarrow> monitor \<Rightarrow> bool \<times> monitor" where
  "monitor_handler show_addr t s = (True, check_load show_addr t s)"

definition start_timer :: "monitor \<Rightarrow> monitor" where
  "start_timer s = acquire (Timer ''timer'') s"

text \<open>The environment of \<^verbatim>\<open>monitor_init\<close> is the address \<^verbatim>\<open>kallsyms_lookup_name\<close> finds.\<close>

definition monitor_init :: "u64 \<Rightarrow> monitor \<Rightarrow> crash + int \<times> monitor" where
  "monitor_init avenrun_addr s =
     (let s1 = s\<lparr>klines := klines s @ [''monitor entry...''], ptr_avenrun := avenrun_addr\<rparr>
      in if ptr_avenrun s1 = 0 then Inr (- EINVAL, s1) else Inr (0, start_timer s1))"

definition monitor_exit :: "monitor \<Rightarrow> crash + monitor" where
  "monitor_exit s = release (Timer ''timer'') (s\<lparr>klines := klines s @ [''monitor exit...'']\<rparr>)"

inductive monitor_step :: "(u64 \<Rightarrow> string) \<Rightarrow> monitor \<Rightarrow> monitor \<Rightarrow> bool" for show_addr where
  step_tick: "monitor_handler show_addr t s = (restart, s') \<Longrightarrow> monitor_step show_addr s s'"

section \<open>Runs of the timer\<close>

text \<open>The times at which a sequence of ticks dumps, as the module records them.\<close>

fun dump_times :: "(u64 \<Rightarrow> string) \<Rightarrow> tick list \<Rightarrow> monitor \<Rightarrow> int list" where
  "dump_times show_addr [] s = []"
| "dump_times show_addr (t # ts) s =
     (let s' = snd (monitor_handler show_addr t s)
      in (if klines s' \<noteq> klines s then [last_dump s'] else []) @ dump_times show_addr ts s')"

text \<open>Clock readings never go back and fit the signed 64-bit \<^verbatim>\<open>ktime_t\<close>.\<close>

fun clock_ok :: "int \<Rightarrow> tick list \<Rightarrow> bool" where
  "clock_ok from [] = True"
| "clock_ok from (t # ts) = (from \<le> now t \<and> now t \<le> now2 t \<and> now2 t < 2 ^ 63 \<and> clock_ok (now2 t) ts)"

text \<open>The load average as the code compares it: its integer part as a C \<^verbatim>\<open>int\<close>.\<close>

definition high_load :: "tick \<Rightarrow> bool" where
  "high_load t \<longleftrightarrow> 1 \<le> sint (ucast (LOAD_INT (fst (avenrun t))) :: u32)"

definition monitor0 :: monitor where
  "monitor0 = \<lparr>held = [], ptr_avenrun = 0, last_dump = 0, klines = []\<rparr>"

definition tick_at :: "int \<Rightarrow> u64 \<Rightarrow> tick" where
  "tick_at n av = \<lparr>now = n, now2 = n + 5, avenrun = (av, 0, 0),
     threads = [\<lparr>state = 0, comm = ''sh'', pid = 7, stack = []\<rparr>], threads2 = []\<rparr>"

section \<open>Lemmas\<close>

lemma ms_small:
  assumes "0 \<le> d" and "d < 2 ^ 63"
  shows "(of_int (d sdiv 1000000) :: u64) < 3000 \<longleftrightarrow> d < 3000000000"
proof -
  have q: "d sdiv 1000000 = d div 1000000" using assms(1) by (simp add: signed_divide_int_def sgn_if)
  have "0 \<le> d div 1000000" "d div 1000000 < 2 ^ 64" using assms by (simp_all add: pos_imp_zdiv_nonneg_iff)
  then have "uint (of_int (d div 1000000) :: u64) = d div 1000000"
    by (simp add: unsigned_of_int take_bit_int_eq_self)
  then have "(of_int (d div 1000000) :: u64) < 3000 \<longleftrightarrow> d div 1000000 < 3000"
    by (simp add: word_less_def)
  then show ?thesis unfolding q by linarith
qed

text \<open>What one tick does, when the clock is in order.\<close>

lemma tick_cases:
  assumes "last_dump s \<le> now t" and "now t < 2 ^ 63" and "0 \<le> last_dump s"
  shows "snd (monitor_handler show_addr t s) =
    (if high_load t \<and> last_dump s + 3000000000 \<le> now t
     then print_all_task_stack show_addr t (s\<lparr>last_dump := now2 t\<rparr>) else s)"
  using assms ms_small [of "now t - last_dump s"]
  by (auto simp: monitor_handler_def check_load_def high_load_def Let_def)

lemma print_all_changes:
  "klines (print_all_task_stack show_addr t s) \<noteq> klines s"
  "last_dump (print_all_task_stack show_addr t s) = last_dump s"
  "held (print_all_task_stack show_addr t s) = held s"
  by (simp_all add: print_all_task_stack_def split: prod.splits)

lemma dump_times_step:
  assumes "last_dump s \<le> now t" and "now t < 2 ^ 63" and "0 \<le> last_dump s"
  shows "dump_times show_addr (t # ts) s =
    (if high_load t \<and> last_dump s + 3000000000 \<le> now t
     then now2 t # dump_times show_addr ts (print_all_task_stack show_addr t (s\<lparr>last_dump := now2 t\<rparr>))
     else dump_times show_addr ts s)"
  using tick_cases [OF assms, of show_addr] print_all_changes [of show_addr t "s\<lparr>last_dump := now2 t\<rparr>"]
  by (simp add: Let_def)

lemma clock_ok_mono: "clock_ok b ts \<Longrightarrow> a \<le> b \<Longrightarrow> clock_ok a ts"
  by (cases ts) auto

lemma held_check_load: "held (check_load show_addr t s) = held s"
  by (simp add: check_load_def Let_def print_all_changes)

interpretation mon: kmodule "\<lambda>s. mset (held s)" "\<lambda>_ _. True" monitor_init "monitor_step show_addr" monitor_exit
    "\<lambda>base s. mset (held s) = add_mset (Timer ''timer'') base" for show_addr
proof unfold_locales
  fix base and s :: monitor
  assume "mset (held s) = add_mset (Timer ''timer'') base"
  then have "mset (held (s\<lparr>klines := klines s @ [''monitor exit...'']\<rparr>)) = add_mset (Timer ''timer'') base" by simp
  then show "\<exists>s'. monitor_exit s = Inr s' \<and> mset (held s') = base"
    unfolding monitor_exit_def by (rule release_mset)
qed (auto simp: monitor_init_def start_timer_def acquire_def Let_def monitor_handler_def held_check_load
    split: if_splits elim!: monitor_step.cases)

lemma dump_running_filter:
  "dump_running show_addr ps =
     concat (map (\<lambda>p. task_line ''running'' p # trace_lines show_addr p) (filter (\<lambda>p. state p = 0) ps))"
  by (induction ps) auto

lemma dump_uninterrupted_filter:
  "dump_uninterrupted show_addr ps =
     concat (map (\<lambda>p. task_line ''uninterrupted'' p # trace_lines show_addr p) (filter (\<lambda>p. bit (state p) 1) ps))"
proof (induction ps)
  case (Cons p ps)
  have "(2 :: u64) = push_bit 1 1" by simp
  then have "state p AND 2 \<noteq> 0 \<longleftrightarrow> bit (state p) 1" by (metis and_exp_eq_0_iff_not_bit power_one_right)
  with Cons show ?case by simp
qed simp

text \<open>At every tick of high load the last dump, or the time recorded before the first one, is less than
  three seconds old.\<close>

lemma recent_dump:
  assumes "clock_ok (last_dump s) ts" and "0 \<le> last_dump s" and "t \<in> set ts" and "high_load t"
  shows "\<exists>d \<in> set (last_dump s # dump_times show_addr ts s). d \<le> now2 t \<and> now t < d + 3000000000"
  using assms(1-3)
proof (induction ts arbitrary: s)
  case (Cons u us)
  then have step: "dump_times show_addr (u # us) s =
    (if high_load u \<and> last_dump s + 3000000000 \<le> now u
     then now2 u # dump_times show_addr us (print_all_task_stack show_addr u (s\<lparr>last_dump := now2 u\<rparr>))
     else dump_times show_addr us s)"
    by (intro dump_times_step) auto
  let ?s = "print_all_task_stack show_addr u (s\<lparr>last_dump := now2 u\<rparr>)"
  have later: "\<exists>d \<in> set (last_dump r # dump_times show_addr us r). d \<le> now2 t \<and> now t < d + 3000000000"
    if "t \<in> set us" "last_dump r \<le> now2 u" "0 \<le> last_dump r" for r
    by (rule Cons.IH) (use Cons.prems that clock_ok_mono [of "now2 u" us "last_dump r"] in auto)
  show ?case
  proof (cases "t \<in> set us")
    case True
    then show ?thesis
      using later [of ?s] later [of s] Cons.prems unfolding step by (auto simp: print_all_changes)
  next
    case False
    then have "t = u" using Cons.prems(3) by simp
    then show ?thesis using assms(4) Cons.prems unfolding step by auto
  qed
qed simp

section \<open>Properties\<close>

text \<open>C7. Over any sequence of timer ticks, two dumps are at least three seconds apart, and the first is
  at least three seconds after the time the module had recorded.\<close>

theorem monitor_rate_limit:
  assumes "clock_ok (last_dump s) ts" and "0 \<le> last_dump s"
  shows "sorted_wrt (\<lambda>a b. a + 3000000000 \<le> b) (last_dump s # dump_times show_addr ts s)"
  using assms
proof (induction ts arbitrary: s)
  case (Cons t ts)
  then have step: "dump_times show_addr (t # ts) s =
    (if high_load t \<and> last_dump s + 3000000000 \<le> now t
     then now2 t # dump_times show_addr ts (print_all_task_stack show_addr t (s\<lparr>last_dump := now2 t\<rparr>))
     else dump_times show_addr ts s)"
    by (intro dump_times_step) auto
  let ?s = "print_all_task_stack show_addr t (s\<lparr>last_dump := now2 t\<rparr>)"
  have "sorted_wrt (\<lambda>a b. a + 3000000000 \<le> b) (last_dump ?s # dump_times show_addr ts ?s)"
    by (rule Cons.IH) (use Cons.prems in \<open>auto simp: print_all_changes\<close>)
  moreover have "sorted_wrt (\<lambda>a b. a + 3000000000 \<le> b) (last_dump s # dump_times show_addr ts s)"
    by (rule Cons.IH) (use Cons.prems clock_ok_mono [of "now2 t" ts "last_dump s"] in auto)
  ultimately show ?case
    using Cons.prems unfolding step by (auto simp: print_all_changes)
qed simp

text \<open>C17. No high load goes unnoticed: over any sequence of ticks, at every tick whose load average is at
  least 1 and which is at least three seconds after the time the module had recorded before the sequence (0 at load time), the module has made a
  dump, not later than the tick and less than three seconds before it.\<close>

theorem monitor_dumps_high_load:
  assumes "clock_ok (last_dump s) ts" and "0 \<le> last_dump s" and "t \<in> set ts" and "high_load t"
    and "last_dump s + 3000000000 \<le> now t"
  shows "\<exists>d \<in> set (dump_times show_addr ts s). d \<le> now2 t \<and> now t < d + 3000000000"
  using recent_dump [OF assms(1-4), of show_addr] assms(5) by auto

text \<open>C35. A dump lists every running task the first thread loop visits and then every uninterruptible task the
  second one visits, in the order of the loops, each with at most 20 stack entries, and the load average it prints is the exact value cut to two
  decimals, the fraction always below 100.\<close>

theorem print_all_task_stack_lists:
  "(\<exists>head. klines (print_all_task_stack show_addr t s) = klines s @ head @
      concat (map (\<lambda>p. task_line ''running'' p # trace_lines show_addr p) (filter (\<lambda>p. state p = 0) (threads t))) @
      [''dump uninterrupted task.''] @
      concat (map (\<lambda>p. task_line ''uninterrupted'' p # trace_lines show_addr p) (filter (\<lambda>p. bit (state p) 1) (threads2 t)))
      \<and> head ! 1 = [CHR 0x09] @ ''Load: '' @ load_text (fst (avenrun t)) @ '', '' @ load_text (fst (snd (avenrun t))) @
          '', '' @ load_text (snd (snd (avenrun t))))
   \<and> 100 * unat (LOAD_INT x) + unat (LOAD_FRAC x) = 100 * unat x div 2048
   \<and> unat (LOAD_FRAC x) < 100 \<and> length (trace_lines show_addr p) \<le> 20"
proof -
  have mask: "x AND (FIXED_1 - 1) = take_bit 11 x"
    by (simp add: FIXED_1_def FSHIFT_def take_bit_eq_mask mask_eq_exp_minus_1)
  have m: "unat (take_bit 11 x) = unat x mod 2048" by (simp add: take_bit_eq_mod unat_mod_distrib)
  have frac: "unat (LOAD_FRAC x) = unat x mod 2048 * 100 div 2048"
    unfolding LOAD_FRAC_def mask LOAD_INT_def FSHIFT_def using m
    by (simp add: unat_drop_bit_eq drop_bit_eq_div unat_div unat_word_ariths)
  have int: "unat (LOAD_INT x) = unat x div 2048"
    by (simp add: LOAD_INT_def FSHIFT_def unat_drop_bit_eq drop_bit_eq_div unat_div)
  have "100 * unat x = 100 * (unat x div 2048) * 2048 + unat x mod 2048 * 100"
    using div_mult_mod_eq [of "unat x" 2048] by linarith
  then have "100 * unat (LOAD_INT x) + unat (LOAD_FRAC x) = 100 * unat x div 2048"
    unfolding int frac by simp
  moreover have "unat (LOAD_FRAC x) < 100" unfolding frac by (simp add: less_mult_imp_div_less)
  ultimately show ?thesis
    by (auto simp: print_all_task_stack_def dump_running_filter dump_uninterrupted_filter trace_lines_def
        BACKTRACE_DEPTH_def split: prod.splits)
qed

text \<open>Loading and unloading the monitor any number of times, with any ticks in between, leaves no
  timer behind and cancels none it did not start.\<close>

lemma monitor_lifetimes:
  assumes "(lifetime (\<lambda>_ _. True) monitor_init (monitor_step show_addr) monitor_exit)\<^sup>*\<^sup>* s s'"
  shows "mset (held s') = mset (held s)"
  using assms by (rule mon.lifetimes_balanced)

section \<open>Witnesses\<close>

theorem monitor_rate_limit_witness:
  "sorted_wrt (\<lambda>a b. a + 3000000000 \<le> b)
     (0 # dump_times (\<lambda>_. ''f'') [tick_at 4000000000 2048, tick_at 4010000000 2048, tick_at 9000000000 4096] monitor0)"
  using monitor_rate_limit [of monitor0 "[tick_at 4000000000 2048, tick_at 4010000000 2048, tick_at 9000000000 4096]"]
  by (simp add: tick_at_def monitor0_def)

theorem monitor_dumps_high_load_witness:
  "\<exists>d \<in> set (dump_times (\<lambda>_. ''f'') [tick_at 4000000000 2048, tick_at 4010000000 2048] monitor0).
     d \<le> 4010000005 \<and> 4010000000 < d + 3000000000"
  using monitor_dumps_high_load [of monitor0 "[tick_at 4000000000 2048, tick_at 4010000000 2048]"
      "tick_at 4010000000 2048" "\<lambda>_. ''f''"]
  by (simp add: tick_at_def monitor0_def high_load_def LOAD_INT_def FSHIFT_def)

lemma monitor_lifetimes_runs:
  "\<exists>s'. lifetime (\<lambda>_ _. True) monitor_init (monitor_step (\<lambda>_. ''f'')) monitor_exit monitor0 s' \<and> mset (held s') = {#}"
proof -
  have "\<exists>s1. monitor_init 0x1000 monitor0 = Inr (0, s1)" by (simp add: monitor_init_def)
  then obtain s' where life: "lifetime (\<lambda>_ _. True) monitor_init (monitor_step (\<lambda>_. ''f'')) monitor_exit monitor0 s'"
    using mon.lifetime_exists by blast
  then have "mset (held s') = mset (held monitor0)" by (intro monitor_lifetimes) (rule r_into_rtranclp)
  with life show ?thesis by (auto simp: monitor0_def)
qed

end
