(* ===== verification/V2p.thy ===== *)
theory V2p
  imports Cformat Lifecycle
begin

text \<open>
  \<^verbatim>\<open>src/code/v2p_addr/v2p_addr.c\<close>: a module that allocates a page and walks the page tables of the current
  process by hand to find its physical address. The page table accessors of the kernel headers are
  parameters (record \<open>pgtable\<close>); \<open>x86_tables\<close> states what they return on the four-level tables of the
  x86-64 architecture manual, and \<open>hw_walk\<close> is the translation the hardware makes.
\<close>

section \<open>The module\<close>

text \<open>The entries a walk reads: the entry of the top table for an address, and at each lower level the
  entry for an address in the table that an upper entry points to, with the \<^verbatim>\<open>_none\<close> tests and the
  index macros.\<close>

record pgtable =
  pgd_val :: "u64 \<Rightarrow> u64"
  p4d_val :: "u64 \<Rightarrow> u64 \<Rightarrow> u64"
  pud_val :: "u64 \<Rightarrow> u64 \<Rightarrow> u64"
  pmd_val :: "u64 \<Rightarrow> u64 \<Rightarrow> u64"
  pte_val :: "u64 \<Rightarrow> u64 \<Rightarrow> u64"
  pgd_none :: "u64 \<Rightarrow> bool"
  p4d_none :: "u64 \<Rightarrow> bool"
  pud_none :: "u64 \<Rightarrow> bool"
  pmd_none :: "u64 \<Rightarrow> bool"
  pte_none :: "u64 \<Rightarrow> bool"
  pgd_index :: "u64 \<Rightarrow> u64"
  p4d_index :: "u64 \<Rightarrow> u64"
  pud_index :: "u64 \<Rightarrow> u64"
  pmd_index :: "u64 \<Rightarrow> u64"
  pte_index :: "u64 \<Rightarrow> u64"
  shifts :: "nat list"        \<comment> \<open>\<^verbatim>\<open>PGDIR_SHIFT\<close>, \<^verbatim>\<open>P4D_SHIFT\<close>, \<^verbatim>\<open>PUD_SHIFT\<close>, \<^verbatim>\<open>PMD_SHIFT\<close>\<close>
  ptrs_per :: "nat list"      \<comment> \<open>\<^verbatim>\<open>PTRS_PER_PGD\<close> to \<^verbatim>\<open>PTRS_PER_PTE\<close>\<close>

abbreviation PAGE_MASK :: u64 where "PAGE_MASK \<equiv> NOT 0xfff"

record v2p_state = kernel +
  vaddr :: u64
  cr0 :: u64
  cr3 :: u64
  page_bytes :: "u8 list"
  klines :: "string list"

definition hex :: "u64 \<Rightarrow> string" where
  "hex x = ''0x'' @ fmt_x 0 (unat x)"

definition print_pgtable_macro :: "pgtable \<Rightarrow> u64 \<Rightarrow> u64 \<Rightarrow> v2p_state \<Rightarrow> v2p_state" where
  "print_pgtable_macro pt read_cr0 read_cr3_pa s =
     s\<lparr>cr0 := read_cr0, cr3 := read_cr3_pa,
       klines := klines s @ [''cr0='' @ hex read_cr0 @ '', cr3='' @ hex read_cr3_pa] @
         map (\<lambda>(n, v). n @ '' = '' @ fmt_d (int v))
           (zip [''pgdir_SHIFT'', ''P4D_SHIFT'', ''PUD_SHIFT'', ''PMD_SHIFT'', ''PAGE_SHIFT'']
                (take 4 (shifts pt) @ [PAGE_SHIFT])) @
         map (\<lambda>(n, v). n @ '' = '' @ fmt_d (int v))
           (zip [''PTRS_PER_PGD'', ''PTRS_PER_P4D'', ''PTRS_PER_PUD'', ''PTRS_PER_PMD'', ''PTRS_PER_PTE'']
                (ptrs_per pt)) @
         [''PAGE_MASK = '' @ hex PAGE_MASK]\<rparr>"

text \<open>One level of the walk prints its entry and stops when it is empty.\<close>

definition level_line :: "string \<Rightarrow> string \<Rightarrow> u64 \<Rightarrow> u64 \<Rightarrow> string" where
  "level_line val_name index_name v i = val_name @ ''='' @ hex v @ '', '' @ index_name @ ''='' @ hex i"

definition vaddr2paddr :: "pgtable \<Rightarrow> u64 \<Rightarrow> u64 \<times> string list" where
  "vaddr2paddr pt a =
     (let pgd = pgd_val pt a; l1 = [level_line ''pgd_val'' ''pdg_index'' pgd (pgd_index pt a)] in
      if pgd_none pt pgd then (- 1, l1 @ [''not mapped in pgd'']) else
      let p4d = p4d_val pt pgd a; l2 = l1 @ [level_line ''p4d_val'' ''p4d_index'' p4d (p4d_index pt a)] in
      if p4d_none pt p4d then (- 1, l2 @ [''not mapped in p4d'']) else
      let pud = pud_val pt p4d a; l3 = l2 @ [level_line ''pud_val'' ''pud_index'' pud (pud_index pt a)] in
      if pud_none pt pud then (- 1, l3 @ [''not mapped in pud'']) else
      let pmd = pmd_val pt pud a; l4 = l3 @ [level_line ''pmd_val'' ''pmd_index'' pmd (pmd_index pt a)] in
      if pmd_none pt pmd then (- 1, l4 @ [''not mapped in pmd'']) else
      let pte = pte_val pt pmd a; l5 = l4 @ [level_line ''pte_val'' ''pte_index'' pte (pte_index pt a)] in
      if pte_none pt pte then (- 1, l5 @ [''not mapped in pte'']) else
      let page_addr = pte AND PAGE_MASK;
          page_offset = a AND NOT PAGE_MASK;
          paddr = page_addr OR page_offset
      in (paddr, l5 @ [''page_offset='' @ hex page_offset @ '', page_addr='' @ hex page_addr,
                       ''vaddr='' @ hex a @ '', paddr='' @ hex paddr]))"

text \<open>The environment of \<^verbatim>\<open>v2p_init\<close>: the page \<^verbatim>\<open>__get_free_page\<close> returns with what it holds, and the two
  control registers.\<close>

record v2p_env =
  page_ret :: u64
  page_content :: "u8 list"
  cr0_ret :: u64
  cr3_ret :: u64

definition v2p_init :: "pgtable \<Rightarrow> v2p_env \<Rightarrow> v2p_state \<Rightarrow> crash + int \<times> v2p_state" where
  "v2p_init pt e s =
     (let s1 = print_pgtable_macro pt (cr0_ret e) (cr3_ret e) (s\<lparr>klines := klines s @ [''print page relate macro:'']\<rparr>);
          s2 = s1\<lparr>klines := klines s1 @ [''vaddr to phy addr entry!''], vaddr := page_ret e\<rparr>
      in if page_ret e = 0 then Inr (0, s2\<lparr>klines := klines s2 @ [''__get_free_pages fail'']\<rparr>)
         else
           let s3 = acquire (Page (page_ret e)) s2\<lparr>page_bytes := page_content e\<rparr>
           in andThen (sprintf_into (page_bytes s3) ''hello physical memory'') (\<lambda>b.
                Inr (0, s3\<lparr>page_bytes := b,
                  klines := klines s3 @ [''__get_free_page, alloc the free page vaddr='' @ hex (vaddr s3)] @
                    snd (vaddr2paddr pt (vaddr s3))\<rparr>)))"

definition v2p_exit :: "v2p_state \<Rightarrow> crash + v2p_state" where
  "v2p_exit s = release_ptr Page (vaddr s) (s\<lparr>klines := klines s @ [''free the alloc page and leave the v2p!'']\<rparr>)"

section \<open>The architecture\<close>

text \<open>Bits 12 to 51 of an entry are the address of the next table or of the page.\<close>

definition entry_addr :: "u64 \<Rightarrow> u64" where
  "entry_addr e = e AND 0x000ffffffffff000"

definition hw_entry :: "(u64 \<Rightarrow> u64) \<Rightarrow> u64 \<Rightarrow> nat \<Rightarrow> u64 \<Rightarrow> u64" where
  "hw_entry mem table shift a = mem (entry_addr table + 8 * take_bit 9 (drop_bit shift a))"

text \<open>The walk of the hardware for a 4 KiB page: bit 0 of an entry is its present bit, bit 7 of an upper
  entry says that it maps a large page.\<close>

definition hw_walk :: "(u64 \<Rightarrow> u64) \<Rightarrow> u64 \<Rightarrow> u64 \<Rightarrow> u64 option" where
  "hw_walk mem root a =
     (let e4 = hw_entry mem root 39 a; e3 = hw_entry mem e4 30 a; e2 = hw_entry mem e3 21 a; e1 = hw_entry mem e2 12 a
      in if bit e4 0 \<and> bit e3 0 \<and> \<not> bit e3 7 \<and> bit e2 0 \<and> \<not> bit e2 7 \<and> bit e1 0
         then Some (entry_addr e1 + take_bit 12 a) else None)"

text \<open>The translation of an address that a 2 MiB page maps: bit 7 of the third entry is set and there is no
  fourth.\<close>

definition hw_walk_2m :: "(u64 \<Rightarrow> u64) \<Rightarrow> u64 \<Rightarrow> u64 \<Rightarrow> u64 option" where
  "hw_walk_2m mem root a =
     (let e4 = hw_entry mem root 39 a; e3 = hw_entry mem e4 30 a; e2 = hw_entry mem e3 21 a
      in if bit e4 0 \<and> bit e3 0 \<and> \<not> bit e3 7 \<and> bit e2 0 \<and> bit e2 7
         then Some ((e2 AND 0x000fffffffe00000) + take_bit 21 a) else None)"

text \<open>The kernel's accessors on those tables (the p4d level is folded into the top one).\<close>

definition x86_tables :: "(u64 \<Rightarrow> u64) \<Rightarrow> u64 \<Rightarrow> pgtable \<Rightarrow> bool" where
  "x86_tables mem root pt \<longleftrightarrow>
     (\<forall>a. pgd_val pt a = hw_entry mem root 39 a) \<and> (\<forall>e a. p4d_val pt e a = e) \<and>
     (\<forall>e a. pud_val pt e a = hw_entry mem e 30 a) \<and> (\<forall>e a. pmd_val pt e a = hw_entry mem e 21 a) \<and>
     (\<forall>e a. pte_val pt e a = hw_entry mem e 12 a) \<and>
     (\<forall>e. bit e 0 \<longrightarrow> \<not> pgd_none pt e \<and> \<not> p4d_none pt e \<and> \<not> pud_none pt e \<and> \<not> pmd_none pt e \<and> \<not> pte_none pt e)"

text \<open>The five levels of a walk, each from the one above it: what their entries are, which are empty, and the
  line that is printed for each.\<close>

definition level_names :: "string list" where
  "level_names = [''pgd'', ''p4d'', ''pud'', ''pmd'', ''pte'']"

definition level_entries :: "pgtable \<Rightarrow> u64 \<Rightarrow> u64 list" where
  "level_entries pt a =
     (let e0 = pgd_val pt a; e1 = p4d_val pt e0 a; e2 = pud_val pt e1 a; e3 = pmd_val pt e2 a; e4 = pte_val pt e3 a
      in [e0, e1, e2, e3, e4])"

definition empty_at :: "pgtable \<Rightarrow> u64 \<Rightarrow> nat \<Rightarrow> bool" where
  "empty_at pt a k \<longleftrightarrow> ([pgd_none pt, p4d_none pt, pud_none pt, pmd_none pt, pte_none pt] ! k) (level_entries pt a ! k)"

definition level_lines :: "pgtable \<Rightarrow> u64 \<Rightarrow> string list" where
  "level_lines pt a =
     map (\<lambda>((n, e), i). level_line (n @ ''_val'') ((if n = ''pgd'' then ''pdg'' else n) @ ''_index'') e i)
       (zip (zip level_names (level_entries pt a))
          [pgd_index pt a, p4d_index pt a, pud_index pt a, pmd_index pt a, pte_index pt a])"

text \<open>The run that \<^verbatim>\<open>readme.txt\<close> records: the tables of that machine as far as the walk reads them.\<close>

definition readme_mem :: "u64 \<Rightarrow> u64" where
  "readme_mem p =
     (if p = 0x11fb20930 then 0x6602067 else if p = 0x66024e8 then 0x6606067
      else if p = 0x66067e0 then 0x11fbb2063 else if p = 0x11fbb2e70 then 0x800000011f9ce063 else 0)"

definition tables_of :: "(u64 \<Rightarrow> u64) \<Rightarrow> u64 \<Rightarrow> pgtable" where
  "tables_of mem root =
     \<lparr>pgd_val = hw_entry mem root 39, p4d_val = \<lambda>e _. e,
      pud_val = \<lambda>e. hw_entry mem e 30, pmd_val = \<lambda>e. hw_entry mem e 21, pte_val = \<lambda>e. hw_entry mem e 12,
      pgd_none = \<lambda>_. False, p4d_none = \<lambda>e. e = 0, pud_none = \<lambda>e. e = 0, pmd_none = \<lambda>e. e = 0, pte_none = \<lambda>e. e = 0,
      pgd_index = \<lambda>a. take_bit 9 (drop_bit 39 a), p4d_index = \<lambda>_. 0, pud_index = \<lambda>a. take_bit 9 (drop_bit 30 a),
      pmd_index = \<lambda>a. take_bit 9 (drop_bit 21 a), pte_index = \<lambda>a. take_bit 9 (drop_bit 12 a),
      shifts = [39, 39, 30, 21], ptrs_per = [512, 1, 512, 512, 512]\<rparr>"

definition readme_tables :: pgtable where
  "readme_tables = tables_of readme_mem 0x11fb20000"

text \<open>Tables that map address 0 by the 2 MiB page at 0x200000, which begins with the byte 0x41.\<close>

definition large_mem :: "u64 \<Rightarrow> u64" where
  "large_mem p = (if p = 0x1000 then 0x2003 else if p = 0x2000 then 0x3003 else if p = 0x3000 then 0x200083
     else if p = 0x200000 then 0x41 else 0)"

definition v2p0 :: v2p_state where
  "v2p0 = \<lparr>held = [], vaddr = 0, cr0 = 0, cr3 = 0, page_bytes = [], klines = []\<rparr>"

section \<open>Lemmas\<close>

lemma all_less_numeral:
  "(\<forall>j < 1. P j) \<longleftrightarrow> P 0" "(\<forall>j < 2. P j) \<longleftrightarrow> P 0 \<and> P 1" "(\<forall>j < 3. P j) \<longleftrightarrow> P 0 \<and> P 1 \<and> P 2"
  "(\<forall>j < 4. P j) \<longleftrightarrow> P 0 \<and> P 1 \<and> P 2 \<and> P (3 :: nat)"
  by (auto simp: less_Suc_eq numeral_eq_Suc)

lemma bit_0xfff: "bit (0xfff :: u64) n \<longleftrightarrow> n < 12"
proof -
  have "bit (mask 12 :: u64) n \<longleftrightarrow> n < 12" by (auto simp only: bit_mask_iff possible_bit_word) simp
  then show ?thesis by (simp add: mask_eq_exp_minus_1)
qed

lemma bit_addr_mask: "bit (0x000ffffffffff000 :: u64) n \<longleftrightarrow> 12 \<le> n \<and> n < 52"
proof -
  have "bit (push_bit 12 (mask 40) :: u64) n \<longleftrightarrow> 12 \<le> n \<and> n < 52"
    by (auto simp only: bit_push_bit_iff bit_mask_iff possible_bit_word) simp_all
  then show ?thesis by (simp add: mask_eq_exp_minus_1)
qed

lemma bit_paddr:
  "bit ((pte AND PAGE_MASK) OR (a AND NOT PAGE_MASK) :: u64) n = (if n < 12 then bit a n else bit pte n)"
  using bit_imp_le_length [of pte n] bit_imp_le_length [of a n]
  by (simp only: bit_or_iff bit_and_iff bit_not_iff bit_0xfff possible_bit_word) auto

lemma hw_frame:
  "entry_addr pte + take_bit 12 a = take_bit 52 ((pte AND PAGE_MASK) OR (a AND NOT PAGE_MASK))"
proof -
  have "entry_addr pte AND take_bit 12 a = 0"
    unfolding entry_addr_def by (rule bit_eqI) (simp only: bit_and_iff bit_take_bit_iff bit_addr_mask bit_0_eq, auto)
  then have "entry_addr pte + take_bit 12 a = entry_addr pte OR take_bit 12 a"
    by (rule disjunctive_add_eq_or)
  also have "\<dots> = take_bit 52 ((pte AND PAGE_MASK) OR (a AND NOT PAGE_MASK))"
    unfolding entry_addr_def
    by (rule bit_eqI) (simp only: bit_take_bit_iff bit_paddr, simp only: bit_or_iff bit_and_iff bit_take_bit_iff bit_addr_mask, auto)
  finally show ?thesis .
qed

lemma vaddr2paddr_mapped:
  assumes "x86_tables mem root pt" and "hw_walk mem root a = Some p"
  defines "pte \<equiv> hw_entry mem (hw_entry mem (hw_entry mem (hw_entry mem root 39 a) 30 a) 21 a) 12 a"
  shows "fst (vaddr2paddr pt a) = (pte AND PAGE_MASK) OR (a AND NOT PAGE_MASK)"
    and "p = entry_addr pte + take_bit 12 a"
proof -
  show "p = entry_addr pte + take_bit 12 a"
    using assms(2) by (auto simp: hw_walk_def Let_def pte_def split: if_splits)
  show "fst (vaddr2paddr pt a) = (pte AND PAGE_MASK) OR (a AND NOT PAGE_MASK)"
    using assms(1,2) unfolding x86_tables_def hw_walk_def vaddr2paddr_def Let_def pte_def
    by (simp split: if_splits)
qed

text \<open>The module's life: the page is freed iff it was allocated.\<close>

definition v2p_loaded :: "resource multiset \<Rightarrow> v2p_state \<Rightarrow> bool" where
  "v2p_loaded base s \<longleftrightarrow> mset (held s) = (if vaddr s = 0 then base else add_mset (Page (vaddr s)) base)"

definition v2p_env_ok :: "v2p_env \<Rightarrow> v2p_state \<Rightarrow> bool" where
  "v2p_env_ok e s \<longleftrightarrow> page_ret e \<noteq> 0 \<longrightarrow> length (page_content e) = 4096"

lemma v2p_init_ok:
  assumes "v2p_env_ok e s"
  shows "\<exists>s'. v2p_init pt e s = Inr (0, s') \<and> v2p_loaded (mset (held s)) s'
    \<and> (page_ret e \<noteq> 0 \<longrightarrow> string_at (page_bytes s') = ''hello physical memory'')"
proof (cases "page_ret e = 0")
  case True
  then show ?thesis by (simp add: v2p_init_def Let_def v2p_loaded_def print_pgtable_macro_def)
next
  case False
  then have "sprintf_into (page_content e) ''hello physical memory'' =
      Inr (buf_put (page_content e) 0 (cstr ''hello physical memory''))"
    using assms by (simp add: v2p_env_ok_def sprintf_into_def)
  moreover have "string_at (buf_put (page_content e) 0 (cstr ''hello physical memory'')) = ''hello physical memory''"
    by (rule string_at_put) simp
  ultimately show ?thesis
    using False by (simp add: v2p_init_def Let_def v2p_loaded_def print_pgtable_macro_def acquire_def)
qed

interpretation v2p: kmodule "\<lambda>s. mset (held s)" v2p_env_ok "v2p_init pt" "\<lambda>_ _. False" v2p_exit v2p_loaded for pt
proof unfold_locales
  fix e and s s' :: v2p_state and r :: int
  assume env: "v2p_env_ok e s"
  note init = v2p_init_ok [OF env, of pt]
  show "\<exists>r s'. v2p_init pt e s = Inr (r, s')" using init by blast
  assume "v2p_init pt e s = Inr (r, s')"
  then show "r \<noteq> 0 \<Longrightarrow> mset (held s') = mset (held s)" using init by auto
next
  fix e and s s' :: v2p_state
  assume "v2p_env_ok e s" and "v2p_init pt e s = Inr (0, s')"
  then show "v2p_loaded (mset (held s)) s'" using v2p_init_ok [of e s pt] by auto
next
  fix base and s :: v2p_state
  assume l: "v2p_loaded base s"
  let ?s = "s\<lparr>klines := klines s @ [''free the alloc page and leave the v2p!'']\<rparr>"
  show "\<exists>s'. v2p_exit s = Inr s' \<and> mset (held s') = base"
  proof (cases "vaddr s = 0")
    case False
    then have "mset (held ?s) = add_mset (Page (vaddr s)) base" using l by (simp add: v2p_loaded_def)
    from release_mset [OF this] False show ?thesis by (simp add: v2p_exit_def release_ptr_def)
  qed (use l in \<open>simp add: v2p_exit_def release_ptr_def v2p_loaded_def\<close>)
qed simp

section \<open>Properties\<close>

text \<open>C8. On x86-64 page tables, for an address mapped by a 4 KiB page, the walk finds the physical address
  the hardware uses in the low 52 bits of its result; the high 12 bits are the flags of the page table
  entry (among them the no-execute bit), which the code does not mask away.\<close>

theorem vaddr2paddr_translates:
  assumes "x86_tables mem root pt" and "hw_walk mem root a = Some p"
  shows "take_bit 52 (fst (vaddr2paddr pt a)) = p
    \<and> drop_bit 52 (fst (vaddr2paddr pt a)) =
        drop_bit 52 (hw_entry mem (hw_entry mem (hw_entry mem (hw_entry mem root 39 a) 30 a) 21 a) 12 a)"
proof -
  note walk = vaddr2paddr_mapped [OF assms]
  show ?thesis
    unfolding walk(1) walk(2) hw_frame
    by (intro conjI refl bit_eqI) (simp only: bit_drop_bit_eq o_def bit_paddr, simp)
qed

text \<open>C36. The walk stops at the first empty level: when level \<open>k\<close> is empty and the levels above it are not, the
  walk returns -1 and prints exactly the entries of the levels down to \<open>k\<close>, in order, and then that the address is
  not mapped in level \<open>k\<close>; the levels below do not show in the result.\<close>

theorem vaddr2paddr_unmapped:
  assumes "k < 5" and "empty_at pt a k" and "\<forall>j < k. \<not> empty_at pt a j"
  shows "vaddr2paddr pt a = (- 1, take (Suc k) (level_lines pt a) @ [''not mapped in '' @ level_names ! k])"
proof -
  consider "k = 0" | "k = 1" | "k = 2" | "k = 3" | "k = 4" using assms(1) by linarith
  then show ?thesis
    using assms(2,3)
    by cases (simp_all add: vaddr2paddr_def empty_at_def level_entries_def level_lines_def level_names_def Let_def
        all_less_numeral)
qed

text \<open>The walk never tests for a large page. For an address in a 2 MiB page, as the kernel's direct map uses them,
  it takes a word of the page's own contents for a page table entry: when that word has bit 0 set, the
  result is the word's upper bits with the offset, whatever the physical address is.\<close>

theorem vaddr2paddr_large_page:
  assumes "x86_tables mem root pt" and "hw_walk_2m mem root a = Some p"
  defines "e2 \<equiv> hw_entry mem (hw_entry mem (hw_entry mem root 39 a) 30 a) 21 a"
  assumes "mem (entry_addr e2 + 8 * take_bit 9 (drop_bit 12 a)) = w" and "bit w 0"
  shows "fst (vaddr2paddr pt a) = (w AND PAGE_MASK) OR (a AND NOT PAGE_MASK)"
proof -
  have "hw_entry mem e2 12 a = w" using assms(4) by (simp add: hw_entry_def)
  then show ?thesis
    using assms(1,2,5) unfolding x86_tables_def hw_walk_2m_def vaddr2paddr_def Let_def e2_def
    by (simp split: if_splits)
qed

text \<open>Loading and unloading the module any number of times frees every page it allocated, once; a
  load that gets no page still succeeds and frees nothing.\<close>

lemma v2p_lifetimes:
  assumes "(lifetime v2p_env_ok (v2p_init pt) (\<lambda>_ _. False) v2p_exit)\<^sup>*\<^sup>* s s'"
  shows "mset (held s') = mset (held s)"
  using assms by (rule v2p.lifetimes_balanced)

section \<open>Witnesses\<close>

lemma tables_of_x86: "x86_tables mem root (tables_of mem root)"
  by (auto simp: x86_tables_def tables_of_def)

lemma readme_x86: "x86_tables readme_mem 0x11fb20000 readme_tables"
  by (simp add: readme_tables_def tables_of_x86)

lemma readme_walk: "hw_walk readme_mem 0x11fb20000 0xffff93275f9ce000 = Some 0x11f9ce000"
  by (simp add: hw_walk_def hw_entry_def entry_addr_def readme_mem_def Let_def)

theorem vaddr2paddr_translates_witness:
  "take_bit 52 (fst (vaddr2paddr readme_tables 0xffff93275f9ce000)) = 0x11f9ce000
    \<and> drop_bit 52 (fst (vaddr2paddr readme_tables 0xffff93275f9ce000)) = 0x800"
  using vaddr2paddr_translates [OF readme_x86 readme_walk]
  by (simp add: hw_entry_def entry_addr_def readme_mem_def)

theorem vaddr2paddr_unmapped_witness:
  "vaddr2paddr readme_tables 0xffff93275fa00000 =
     (- 1, take 4 (level_lines readme_tables 0xffff93275fa00000) @ [''not mapped in pmd''])"
proof -
  have "empty_at readme_tables 0xffff93275fa00000 3" "\<forall>j < 3. \<not> empty_at readme_tables 0xffff93275fa00000 j"
    by (simp_all add: empty_at_def level_entries_def readme_tables_def tables_of_def hw_entry_def entry_addr_def readme_mem_def
        Let_def all_less_numeral)
  then show ?thesis using vaddr2paddr_unmapped [of 3 readme_tables "0xffff93275fa00000"] by (simp add: level_names_def)
qed

lemma v2p_lifetimes_runs:
  "\<exists>s'. lifetime v2p_env_ok (v2p_init readme_tables) (\<lambda>_ _. False) v2p_exit v2p0 s' \<and> mset (held s') = {#}"
proof -
  have env: "v2p_env_ok \<lparr>page_ret = 0xffff93275f9ce000, page_content = replicate 4096 0, cr0_ret = 0, cr3_ret = 0\<rparr> v2p0"
    by (simp add: v2p_env_ok_def)
  then obtain s' where life: "lifetime v2p_env_ok (v2p_init readme_tables) (\<lambda>_ _. False) v2p_exit v2p0 s'"
    using v2p.lifetime_exists [OF env] v2p_init_ok [OF env] by blast
  then have "mset (held s') = mset (held v2p0)" by (intro v2p_lifetimes) (rule r_into_rtranclp)
  with life show ?thesis by (auto simp: v2p0_def)
qed

lemma large_page_wrong:
  "hw_walk_2m large_mem 0x1000 0 = Some 0x200000 \<and> fst (vaddr2paddr (tables_of large_mem 0x1000) 0) = 0"
proof -
  have walk: "hw_walk_2m large_mem 0x1000 0 = Some 0x200000"
    by (simp add: hw_walk_2m_def hw_entry_def entry_addr_def large_mem_def)
  have "fst (vaddr2paddr (tables_of large_mem 0x1000) 0) = (0x41 AND PAGE_MASK) OR (0 AND NOT PAGE_MASK)"
    by (rule vaddr2paddr_large_page [OF tables_of_x86 walk])
      (simp_all add: hw_entry_def entry_addr_def large_mem_def)
  then show ?thesis using walk by simp
qed

end
