(* ===== verification/Pcimem.thy ===== *)
theory Pcimem
  imports Cformat
begin

text \<open>
  \<^verbatim>\<open>src/code/pcimap\<close>: \<^verbatim>\<open>pcimem.c\<close>, a command line tool that dumps and writes the memory of a PCI device
  through its sysfs file, and the small test program \<^verbatim>\<open>mmap_sync.c\<close>. The C integers keep their widths
  (\<^verbatim>\<open>int\<close> products and the \<^verbatim>\<open>int\<close> map size wrap, \<^verbatim>\<open>off_t\<close> is a signed 64-bit number). The device is its
  list of bytes, which behaves like memory; the results of \<^verbatim>\<open>open\<close>, \<^verbatim>\<open>mmap\<close> and \<^verbatim>\<open>munmap\<close> are parameters. An
  access outside the mapping is \<open>Bad_access\<close>.
\<close>

section \<open>Arguments\<close>

text \<open>\<^verbatim>\<open>strtoul(s, 0, 0)\<close> and \<^verbatim>\<open>strtoull\<close>: white space, a sign, a base prefix, digits; saturation.\<close>

definition parse_based :: "string \<Rightarrow> nat" where
  "parse_based s =
     (if char_at s 0 = CHR ''0'' \<and> tolower (char_at s 1) = CHR ''x'' \<and> is_digit 16 (char_at s 2)
      then parse_digits 16 0 (drop 2 s)
      else if char_at s 0 = CHR ''0'' then parse_digits 8 0 s else parse_digits 10 0 s)"

definition strtoul :: "string \<Rightarrow> u64" where
  "strtoul s =
     (let t = dropWhile isspace s;
          neg = (char_at t 0 = CHR ''-'');
          body = (if neg \<or> char_at t 0 = CHR ''+'' then drop 1 t else t);
          n = parse_based body
      in if n \<ge> 2 ^ 64 then - 1 else if neg then - of_nat n else of_nat n)"

section \<open>The program\<close>

text \<open>The parsed arguments: file, target offset, access type and its width, number of items, data.\<close>

record pci_args =
  filename :: string
  target :: u64
  type_width :: nat
  items_count :: u32
  writeval :: "u64 option"

definition width_of :: "char \<Rightarrow> nat option" where
  "width_of c =
     (if c = CHR ''b'' then Some 1 else if c = CHR ''h'' then Some 2
      else if c = CHR ''w'' then Some 4 else if c = CHR ''d'' then Some 8 else None)"

text \<open>The part of \<^verbatim>\<open>main\<close> up to the \<^verbatim>\<open>switch\<close>: exit status and message, or the arguments.\<close>

definition usage :: "string \<Rightarrow> string list" where
  "usage argv0 =
     ['''', ''Usage:'' @ [CHR 0x09] @ argv0 @ '' { sysfile } { offset } [ type*count [ data ] ]'',
      [CHR 0x09] @ ''sys file: sysfs file for the pci resource to act on'',
      [CHR 0x09] @ ''offset  : offset into pci memory region to act upon'',
      [CHR 0x09] @ ''type    : access operation type : [b]yte, [h]alfword, [w]ord, [d]ouble-word'',
      [CHR 0x09] @ ''*count  : number of items to read:  w*100 will dump 100 words'',
      [CHR 0x09] @ ''data    : data to be written'', '''']"

definition parse_args :: "string list \<Rightarrow> (int \<times> string list) + pci_args" where
  "parse_args argv =
     (if length argv < 3 then Inl (1, usage (argv ! 0))
      else
        let access_type = (if length argv > 3 then tolower (char_at (argv ! 3) 0) else CHR ''w'');
            count = (if length argv > 3 \<and> char_at (argv ! 3) 1 = CHR ''*''
                     then ucast (strtoul (drop 2 (argv ! 3))) else 1)
        in case width_of access_type of
             None \<Rightarrow> Inl (2, [''Illegal data type '' @ [CHR 0x27] @ [access_type] @ [CHR 0x27] @ ''.''])
           | Some w \<Rightarrow> Inr \<lparr>filename = argv ! 1, target = strtoul (argv ! 2), type_width = w, items_count = count,
               writeval = (if length argv > 4 then Some (strtoul (argv ! 4)) else None)\<rparr>)"

definition target_base :: "pci_args \<Rightarrow> u64" where
  "target_base a = target a AND NOT (PAGE_SIZE - 1)"

text \<open>\<^verbatim>\<open>int\<close> product of a count and the width, converted to \<^verbatim>\<open>off_t\<close>.\<close>

definition scaled :: "pci_args \<Rightarrow> u32 \<Rightarrow> u64" where
  "scaled a n = scast (n * of_nat (type_width a))"

definition map_size :: "pci_args \<Rightarrow> u32" where
  "map_size a =
     (let need = target a + scaled a (items_count a) - target_base a
      in if sint need > 4096 then ucast need else 4096)"

text \<open>Loads and stores at an offset of the mapping; \<open>bar\<close> is the whole device.\<close>

definition inside :: "pci_args \<Rightarrow> u64 \<Rightarrow> u8 list \<Rightarrow> bool" where
  "inside a off bar \<longleftrightarrow>
     unat off + type_width a \<le> unat (scast (map_size a) :: u64) \<and>
     unat (target_base a) + unat off + type_width a \<le> length bar"

definition load :: "pci_args \<Rightarrow> u64 \<Rightarrow> u8 list \<Rightarrow> crash + u64" where
  "load a off bar =
     (if inside a off bar then Inr (of_nat (le_val (buf_get (unat (target_base a) + unat off) (type_width a) bar)))
      else Inl Bad_access)"

definition poke :: "pci_args \<Rightarrow> u64 \<Rightarrow> u64 \<Rightarrow> u8 list \<Rightarrow> crash + u8 list" where
  "poke a off v bar =
     (if inside a off bar then Inr (buf_put bar (unat (target_base a) + unat off) (le_bytes (type_width a) (unat v)))
      else Inl Bad_access)"

text \<open>The offset of item \<open>i\<close> from \<^verbatim>\<open>map_base\<close>: \<^verbatim>\<open>target + i*type_width - target_base\<close>.\<close>

definition virt_off :: "pci_args \<Rightarrow> nat \<Rightarrow> u64" where
  "virt_off a i = target a + scaled a (of_nat i) - target_base a"

definition value_line :: "pci_args \<Rightarrow> nat \<Rightarrow> u64 \<Rightarrow> string" where
  "value_line a i v =
     ''0x'' @ fmt_X 4 (unat (ucast (target a + scaled a (of_nat i)) :: u32)) @ '': 0x'' @ fmt_X (2 * type_width a) (unat v)"

text \<open>The dump loop from item \<open>i\<close> on, with \<^verbatim>\<open>prev_read_result\<close> and \<^verbatim>\<open>read_result_dupped\<close> (\<^verbatim>\<open>verbose\<close> is 0).\<close>

function dump_loop :: "pci_args \<Rightarrow> u8 list \<Rightarrow> nat \<Rightarrow> u64 \<Rightarrow> bool \<Rightarrow> crash + string list" where
  "dump_loop a bar i prev dupped =
     (if int i < sint (items_count a) then
        andThen (load a (virt_off a i) bar) (\<lambda>v.
          let (ls, dupped') =
                (if v \<noteq> prev \<or> i = 0 then ([value_line a i v], False)
                 else (if \<not> dupped then [''...''] else [], True))
          in andThen (dump_loop a bar (Suc i) v dupped') (\<lambda>rest. Inr (ls @ rest)))
      else Inr [])"
  by pat_completeness auto
termination
  by (relation "measure (\<lambda>(a, bar, i, prev, dupped). nat (sint (items_count a) - int i))") auto

declare dump_loop.simps [simp del]

definition lpad :: "nat \<Rightarrow> string \<Rightarrow> string" where
  "lpad w s = replicate (w - length s) (CHR '' '') @ s"

text \<open>The write: it goes to the address of the last item; with no item \<^verbatim>\<open>virt_addr\<close> was never set.\<close>

definition write_back :: "pci_args \<Rightarrow> u64 \<Rightarrow> u8 list \<Rightarrow> crash + string list \<times> u8 list" where
  "write_back a v bar =
     (if sint (items_count a) < 1 then Inl Bad_access
      else
        let off = virt_off a (nat (sint (items_count a)) - 1)
        in andThen (poke a off v bar) (\<lambda>bar'.
           andThen (load a off bar') (\<lambda>r.
             Inr ([''Written 0x'' @ fmt_X (type_width a) (unat v) @ ''; readback 0x'' @
                    lpad (type_width a) (fmt_X 0 (unat r))], bar'))))"

text \<open>What the system answers: file descriptor, address of the mapping, whether \<^verbatim>\<open>munmap\<close> works, the text of
  \<^verbatim>\<open>errno\<close>.\<close>

record pci_env =
  open_ret :: int
  mmap_ret :: u64
  munmap_ret :: int
  errno_text :: string

definition print_error :: "pci_env \<Rightarrow> nat \<Rightarrow> string" where
  "print_error e line = ''Error at line '' @ fmt_u line @ '', file pcimem.c '' @ errno_text e"

text \<open>\<^verbatim>\<open>main\<close>: exit status, lines printed, device.\<close>

definition main :: "pci_env \<Rightarrow> string list \<Rightarrow> u8 list \<Rightarrow> crash + int \<times> string list \<times> u8 list" where
  "main e argv bar =
     (case parse_args argv of
        Inl (status, ls) \<Rightarrow> Inr (status, ls, bar)
      | Inr a \<Rightarrow>
          if open_ret e = - 1 then Inr (1, [print_error e 98], bar)
          else
            let ls1 = [filename a @ '' opened.'',
                  ''Target offset is 0x'' @ fmt_x 0 (unat (ucast (target a) :: u32)) @ '', page size is 4096'',
                  ''mmap(0, '' @ fmt_d (sint (map_size a)) @ '', 0x3, 0x1, '' @ fmt_d (open_ret e) @ '', 0x'' @
                    fmt_x 0 (unat (ucast (target a) :: u32)) @ '')'']
            in if mmap_ret e = - 1 then Inr (1, ls1 @ [print_error e 111], bar)
               else
                 let ls2 = ls1 @ [''PCI Memory mapped to address 0x'' @ fmt_x 8 (unat (mmap_ret e)) @ ''.'']
                 in andThen (dump_loop a bar 0 0 False) (\<lambda>dump.
                    andThen (case writeval a of None \<Rightarrow> Inr ([], bar) | Some v \<Rightarrow> write_back a v bar) (\<lambda>(wl, bar').
                      let ls3 = ls2 @ dump @ wl
                      in if munmap_ret e = - 1 then Inr (1, ls3 @ [print_error e 177], bar') else Inr (0, ls3, bar'))))"

text \<open>\<^verbatim>\<open>main\<close> of \<^verbatim>\<open>mmap_sync.c\<close>: it prints the first 16-bit word of the device.\<close>

definition mmap_sync_main :: "u64 \<Rightarrow> string \<Rightarrow> u8 list \<Rightarrow> crash + int \<times> string list" where
  "mmap_sync_main mmap_addr strerror bar =
     (if mmap_addr = - 1 then Inr (0, [''open suc'', ''mmap /dev/nvidia0 failed: '' @ strerror])
      else if length bar < 2 then Inl Bad_access
      else Inr (0, [''open suc'', ''PCI BAR0 0x0000 = 0x'' @ fmt_x 0 (le_val (take 2 bar))]))"

section \<open>Specification\<close>

text \<open>Arguments inside the arithmetic of the program: at least one item, and the end of the last item
  below 2 GiB.\<close>

definition args_ok :: "pci_args \<Rightarrow> bool" where
  "args_ok a \<longleftrightarrow> 0 < unat (items_count a) \<and> type_width a \<in> {1, 2, 4, 8} \<and>
     unat (target a) + unat (items_count a) * type_width a < 2 ^ 31"

text \<open>The mapping lies inside the device.\<close>

definition mapped :: "pci_args \<Rightarrow> u8 list \<Rightarrow> bool" where
  "mapped a bar \<longleftrightarrow> unat (target_base a) + unat (map_size a) \<le> length bar"

text \<open>Item \<open>i\<close> of the dump, read directly from the device.\<close>

definition item :: "pci_args \<Rightarrow> u8 list \<Rightarrow> nat \<Rightarrow> u64" where
  "item a bar i = of_nat (le_val (buf_get (unat (target a) + i * type_width a) (type_width a) bar))"

text \<open>The lines for item \<open>i\<close>, without the loop's flags: its value when it differs from the item before it,
  dots when it is the first repetition.\<close>

definition item_lines :: "pci_args \<Rightarrow> u8 list \<Rightarrow> nat \<Rightarrow> string list" where
  "item_lines a bar i =
     (if i = 0 \<or> item a bar i \<noteq> item a bar (i - 1) then [value_line a i (item a bar i)]
      else if i = 1 \<or> item a bar (i - 1) \<noteq> item a bar (i - 2) then [''...''] else [])"

definition bar0 :: "u8 list" where
  "bar0 = replicate 8 0x11 @ replicate 4088 0x22"

definition env0 :: pci_env where
  "env0 = \<lparr>open_ret = 3, mmap_ret = 0x7f0000000000, munmap_ret = 0, errno_text = ''''\<rparr>"

section \<open>Lemmas\<close>

lemma unat_target_base: "unat (target_base a) = unat (target a) - unat (target a) mod 4096"
proof -
  have "target_base a = target a AND NOT (mask 12)" by (simp add: target_base_def mask_eq_exp_minus_1)
  also have "\<dots> = push_bit 12 (drop_bit 12 (target a))"
    by (rule bit_eqI) (auto simp only: bit_and_iff bit_not_iff bit_mask_iff bit_push_bit_iff bit_drop_bit_eq
        o_def possible_bit_word le_add_diff_inverse not_less)
  also have "\<dots> = target a - take_bit 12 (target a)" by (metis add_diff_cancel_right' bits_ident)
  finally have "target_base a = target a - take_bit 12 (target a)" .
  moreover have low: "unat (take_bit 12 (target a)) = unat (target a) mod 4096"
    by (simp add: take_bit_eq_mod unat_mod_distrib)
  ultimately show ?thesis using unat_sub [of "take_bit 12 (target a)" "target a"] by (simp add: word_le_nat_alt)
qed

lemma items_small:
  assumes "args_ok a"
  shows "unat (items_count a) < 2 ^ 31" and "sint (items_count a) = int (unat (items_count a))"
proof -
  have "1 \<le> type_width a" and bound: "unat (target a) + unat (items_count a) * type_width a < 2 ^ 31"
    using assms by (auto simp: args_ok_def)
  then have "unat (items_count a) \<le> unat (items_count a) * type_width a" by simp
  with bound show small: "unat (items_count a) < 2 ^ 31" by linarith
  then show "sint (items_count a) = int (unat (items_count a))" by (simp add: sint_eq_uint_small)
qed

lemma int_size_eq:
  "m = (if 4096 < unat n then ucast n else 4096) \<Longrightarrow> unat n < 2 ^ 31 \<Longrightarrow> unat m = max 4096 (unat n)"
  for m :: u32 and n :: u64
  by (auto simp: unat_ucast_mod max_def)

text \<open>For arguments in range nothing wraps.\<close>

lemma unat_scaled:
  assumes "args_ok a" and "i \<le> unat (items_count a)"
  shows "unat (scaled a (of_nat i)) = i * type_width a"
proof -
  have "i * type_width a \<le> unat (items_count a) * type_width a" using assms(2) by simp
  then have small: "i * type_width a < 2 ^ 31" using assms(1) by (auto simp: args_ok_def)
  have "of_nat i * of_nat (type_width a) = (of_nat (i * type_width a) :: u32)" by simp
  moreover have "unat (of_nat (i * type_width a) :: u32) = i * type_width a"
    using small by (simp add: unat_of_nat del: of_nat_mult)
  ultimately show ?thesis
    using small unat_scast_small [of "of_nat (i * type_width a) :: u32", where 'b = 64]
    by (simp add: scaled_def del: of_nat_mult)
qed

lemma unat_virt_off:
  assumes "args_ok a" and "i \<le> unat (items_count a)"
  shows "unat (virt_off a i) = unat (target a) mod 4096 + i * type_width a"
    and "unat (target_base a) + unat (virt_off a i) = unat (target a) + i * type_width a"
proof -
  have "i * type_width a \<le> unat (items_count a) * type_width a" using assms(2) by simp
  then have small: "unat (target a) + i * type_width a < 2 ^ 31" using assms(1) by (auto simp: args_ok_def)
  have sum: "unat (target a + scaled a (of_nat i)) = unat (target a) + i * type_width a"
    using small unat_scaled [OF assms] by (simp add: unat_word_ariths)
  have mod: "unat (target a) mod 4096 \<le> unat (target a)" by simp
  have "unat (virt_off a i) = unat (target a + scaled a (of_nat i)) - unat (target_base a)"
    unfolding virt_off_def by (rule unat_sub) (simp add: word_le_nat_alt sum unat_target_base)
  then show off: "unat (virt_off a i) = unat (target a) mod 4096 + i * type_width a"
    using mod by (simp add: sum unat_target_base)
  then show "unat (target_base a) + unat (virt_off a i) = unat (target a) + i * type_width a"
    using mod by (simp add: unat_target_base)
qed

lemma unat_map_size:
  assumes "args_ok a"
  shows "unat (map_size a) = max 4096 (unat (target a) mod 4096 + unat (items_count a) * type_width a)"
    and "unat (scast (map_size a) :: u64) = unat (map_size a)"
proof -
  let ?need = "target a + scaled a (items_count a) - target_base a"
  have need: "unat ?need = unat (target a) mod 4096 + unat (items_count a) * type_width a"
    using unat_virt_off(1) [OF assms order_refl] by (simp add: virt_off_def)
  have "unat (target a) mod 4096 \<le> unat (target a)" by simp
  then have small: "unat ?need < 2 ^ 31" unfolding need using assms by (auto simp: args_ok_def)
  then have "sint ?need = int (unat ?need)" by (simp add: sint_eq_uint_small)
  then have "sint ?need > 4096 \<longleftrightarrow> 4096 < unat ?need" by linarith
  then have "map_size a = (if 4096 < unat ?need then ucast ?need else 4096)" by (simp only: map_size_def Let_def)
  from int_size_eq [OF this small] have "unat (map_size a) = max 4096 (unat ?need)" .
  then show "unat (map_size a) = max 4096 (unat (target a) mod 4096 + unat (items_count a) * type_width a)"
    using need by simp
  then show "unat (scast (map_size a) :: u64) = unat (map_size a)"
    using small need by (intro unat_scast_small) auto
qed

lemma inside_item:
  assumes "args_ok a" and "mapped a bar" and "i < unat (items_count a)"
  shows "inside a (virt_off a i) bar" and "load a (virt_off a i) bar = Inr (item a bar i)"
proof -
  have "Suc i * type_width a \<le> unat (items_count a) * type_width a" using assms(3) by (intro mult_le_mono1) simp
  then have i: "i * type_width a + type_width a \<le> unat (items_count a) * type_width a" by simp
  have le: "i \<le> unat (items_count a)" using assms(3) by simp
  note off = unat_virt_off [OF assms(1) le] and size = unat_map_size [OF assms(1)]
  have "unat (virt_off a i) + type_width a \<le> unat (map_size a)" using i by (simp add: off(1) size(1))
  moreover from this have "unat (target_base a) + unat (virt_off a i) + type_width a \<le> length bar"
    using assms(2) by (simp add: mapped_def)
  ultimately show ins: "inside a (virt_off a i) bar" by (simp add: inside_def size(2))
  then show "load a (virt_off a i) bar = Inr (item a bar i)"
    by (simp add: load_def off(2) item_def)
qed

text \<open>The loop against the flag-free description: after item \<open>i - 1\<close> the flag says whether dots were
  printed for it.\<close>

lemma dump_loop_lines:
  assumes "args_ok a" and "mapped a bar" and "i \<le> unat (items_count a)"
    and "i = 0 \<or> prev = item a bar (i - 1)"
    and "i = 0 \<or> dupped = (i \<noteq> 1 \<and> item a bar (i - 1) = item a bar (i - 2))"
  shows "dump_loop a bar i prev dupped = Inr (concat (map (item_lines a bar) [i..<unat (items_count a)]))"
  using assms(3-5)
proof (induction "unat (items_count a) - i" arbitrary: i prev dupped)
  case 0
  then show ?case using items_small(2) [OF assms(1)] by (simp add: dump_loop.simps)
next
  case (Suc d)
  then have i: "i < unat (items_count a)" by simp
  then have bound: "int i < sint (items_count a)" unfolding items_small(2) [OF assms(1)] by (rule of_nat_less_iff [THEN iffD2])
  let ?v = "item a bar i"
  define d where "d = (\<not> (?v \<noteq> prev \<or> i = 0))"
  have rest: "dump_loop a bar (Suc i) ?v d = Inr (concat (map (item_lines a bar) [Suc i..<unat (items_count a)]))"
    by (rule Suc.hyps(1)) (use Suc i in \<open>auto simp: d_def\<close>)
  have here: "item_lines a bar i = (if \<not> d then [value_line a i ?v] else if \<not> dupped then [''...''] else [])"
    using Suc.prems by (auto simp: item_lines_def d_def)
  have "dump_loop a bar i prev dupped =
      andThen (dump_loop a bar (Suc i) ?v d) (\<lambda>rest. Inr (item_lines a bar i @ rest))"
    using bound inside_item(2) [OF assms(1,2) i] unfolding here
    by (cases d) (simp_all add: dump_loop.simps [of a bar i] d_def)
  then show ?case using rest i by (simp add: upt_conv_Cons)
qed

lemma dump_all:
  assumes "args_ok a" and "mapped a bar"
  shows "dump_loop a bar 0 0 False = Inr (concat (map (item_lines a bar) [0..<unat (items_count a)]))"
  by (rule dump_loop_lines [OF assms]) simp_all

lemma write_back_last:
  assumes "args_ok a" and "mapped a bar"
  defines "off \<equiv> unat (target a) + (unat (items_count a) - 1) * type_width a"
  shows "write_back a v bar =
    Inr ([''Written 0x'' @ fmt_X (type_width a) (unat v) @ ''; readback 0x'' @
        lpad (type_width a) (fmt_X 0 (unat v mod 256 ^ type_width a))],
      buf_put bar off (le_bytes (type_width a) (unat v)))"
proof -
  have count: "0 < unat (items_count a)" using assms(1) by (simp add: args_ok_def)
  then have last: "unat (items_count a) - 1 < unat (items_count a)" by simp
  let ?k = "unat (items_count a) - 1"
  have sint: "sint (items_count a) = int (unat (items_count a))" by (rule items_small(2) [OF assms(1)])
  let ?bar = "buf_put bar off (le_bytes (type_width a) (unat v))"
  have le: "?k \<le> unat (items_count a)" by simp
  have at: "unat (target_base a) + unat (virt_off a ?k) = off"
    unfolding off_def by (rule unat_virt_off(2) [OF assms(1) le])
  note ins = inside_item(1) [OF assms(1,2) last]
  then have room: "off + type_width a \<le> length bar" using at by (simp add: inside_def)
  then have same: "length ?bar = length bar" by (simp add: buf_simps)
  have ins': "inside a (virt_off a ?k) ?bar" using ins same by (simp add: inside_def)
  have poked: "poke a (virt_off a ?k) v bar = Inr ?bar" unfolding poke_def at using ins by simp
  have loaded: "load a (virt_off a ?k) ?bar = Inr (of_nat (unat v mod 256 ^ type_width a))"
    unfolding load_def at using ins' room by (simp add: buf_simps le_val_bytes)
  have cut: "unat (of_nat (unat v mod 256 ^ type_width a) :: u64) = unat v mod 256 ^ type_width a"
  proof -
    have "unat v mod 256 ^ type_width a \<le> unat v" by simp
    also have "\<dots> < 2 ^ 64" using unsigned_less [of v] by simp
    finally show ?thesis by (simp add: unat_of_nat)
  qed
  have k: "nat (sint (items_count a)) - 1 = ?k" by (simp only: sint nat_int)
  have "\<not> sint (items_count a) < 1" using sint count by linarith
  then show ?thesis by (simp only: write_back_def Let_def k if_False poked loaded andThen_simps cut)
qed

text \<open>Hexadecimal arguments are read as the number they print.\<close>

lemma hd_udigits16: "\<exists>c cs. udigits digit_lower 16 n = c # cs \<and> is_digit 16 c"
proof -
  have "\<forall>c \<in> set (udigits digit_lower 16 n). \<exists>d. digit_val c = Some d \<and> d < 16"
    by (rule udigits_valid) (simp_all add: fmt_simps)
  moreover have "udigits digit_lower 16 n \<noteq> []" by (subst udigits.simps) simp
  ultimately show ?thesis by (cases "udigits digit_lower 16 n") (auto simp: is_digit_def)
qed

lemma strtoul_hex: "n < 2 ^ 64 \<Longrightarrow> strtoul (''0x'' @ fmt_x 0 n) = of_nat n"
proof -
  assume n: "n < 2 ^ 64"
  obtain c cs where digits: "fmt_x 0 n = c # cs" "is_digit 16 c"
    using hd_udigits16 [of n] by (auto simp: fmt_x_def zpad_def)
  have "dropWhile isspace (''0x'' @ fmt_x 0 n) = ''0x'' @ fmt_x 0 n" by (simp add: isspace_def)
  moreover have "parse_based (''0x'' @ fmt_x 0 n) = n"
    using digits parse_fmt_x [of 0 n] by (simp add: parse_based_def char_at_def tolower_def)
  ultimately show ?thesis using n by (simp add: strtoul_def Let_def char_at_def)
qed

section \<open>Properties\<close>

text \<open>C6. A read-only run with arguments in range over a mapping inside the device exits with 0, touches
  nothing outside the mapping, and after its four header lines prints, for every item at
  \<^verbatim>\<open>target + i*width\<close>, its value when it differs from the item before it and one line of dots at the start
  of a run of equal items; the device is unchanged.\<close>

theorem pcimem_dump:
  assumes "parse_args argv = Inr a" and "args_ok a" and "mapped a bar" and "writeval a = None"
    and "open_ret e \<noteq> - 1" and "mmap_ret e \<noteq> - 1" and "munmap_ret e \<noteq> - 1"
  shows "\<exists>header. length header = 4
    \<and> main e argv bar = Inr (0, header @ concat (map (item_lines a bar) [0..<unat (items_count a)]), bar)"
  using assms dump_all [OF assms(2,3)] by (simp add: main_def Let_def)

text \<open>C13. A run with data stores its low bytes, little endian, at the last item and nowhere else, and prints
  the value it reads back, which is the data cut to the width.\<close>

theorem pcimem_write:
  assumes "parse_args argv = Inr a" and "args_ok a" and "mapped a bar" and "writeval a = Some v"
    and "open_ret e \<noteq> - 1" and "mmap_ret e \<noteq> - 1" and "munmap_ret e \<noteq> - 1"
  shows "\<exists>ls. main e argv bar = Inr (0, ls,
        buf_put bar (unat (target a) + (unat (items_count a) - 1) * type_width a) (le_bytes (type_width a) (unat v)))
    \<and> last ls = ''Written 0x'' @ fmt_X (type_width a) (unat v) @ ''; readback 0x'' @
        lpad (type_width a) (fmt_X 0 (unat v mod 256 ^ type_width a))"
  using assms dump_all [OF assms(2,3)] write_back_last [OF assms(2,3), of v] by (simp add: main_def Let_def)

text \<open>With a count of zero (or a negative one) and data, the program stores through a pointer it never
  set.\<close>

theorem pcimem_write_no_items:
  assumes "parse_args argv = Inr a" and "sint (items_count a) < 1" and "writeval a = Some v"
    and "open_ret e \<noteq> - 1" and "mmap_ret e \<noteq> - 1"
  shows "main e argv bar = Inl Bad_access"
  using assms by (simp add: main_def Let_def dump_loop.simps [of a bar 0] write_back_def)

section \<open>Witnesses\<close>

lemma args_read: "parse_args [''pcimem'', ''res0'', ''0x4'', ''w*3''] =
    Inr \<lparr>filename = ''res0'', target = 4, type_width = 4, items_count = 3, writeval = None\<rparr>"
  by (simp add: parse_args_def width_of_def char_at_def tolower_def strtoul_def isspace_def parse_based_def
      is_digit_def digit_val_def Let_def)

lemma args_write: "parse_args [''pcimem'', ''res0'', ''4'', ''b*2'', ''0x1ff''] =
    Inr \<lparr>filename = ''res0'', target = 4, type_width = 1, items_count = 2, writeval = Some 0x1ff\<rparr>"
  by (simp add: parse_args_def width_of_def char_at_def tolower_def strtoul_def isspace_def parse_based_def
      is_digit_def digit_val_def Let_def)

lemma args_none: "parse_args [''pcimem'', ''res0'', ''4'', ''b*0'', ''1''] =
    Inr \<lparr>filename = ''res0'', target = 4, type_width = 1, items_count = 0, writeval = Some 1\<rparr>"
  by (simp add: parse_args_def width_of_def char_at_def tolower_def strtoul_def isspace_def parse_based_def
      is_digit_def digit_val_def Let_def)

theorem pcimem_dump_witness:
  "\<exists>header. length header = 4 \<and> main env0 [''pcimem'', ''res0'', ''0x4'', ''w*3''] bar0 =
     Inr (0, header @ [''0x0004: 0x11111111'', ''0x0008: 0x22222222'', ''...''], bar0)"
proof -
  let ?a = "\<lparr>filename = ''res0'', target = 4, type_width = 4, items_count = 3, writeval = None\<rparr> :: pci_args"
  have ok: "args_ok ?a" by (simp add: args_ok_def)
  have map: "mapped ?a bar0" unfolding mapped_def unat_target_base unat_map_size(1) [OF ok] by (simp add: bar0_def)
  have four: "replicate 4 b = [b, b, b, b]" for b :: u8 by (simp add: numeral_eq_Suc)
  have three: "replicate 3 c = [c, c, c]" for c :: char by (simp add: numeral_eq_Suc)
  have items: "item ?a bar0 0 = 0x11111111" "item ?a bar0 1 = 0x22222222" "item ?a bar0 2 = 0x22222222"
    by (simp_all add: item_def bar0_def buf_get_def four)
  have lines: "value_line ?a 0 0x11111111 = ''0x0004: 0x11111111''" "value_line ?a 1 0x22222222 = ''0x0008: 0x22222222''"
    by (simp_all add: value_line_def scaled_def fmt_eval three)
  have "item_lines ?a bar0 0 = [''0x0004: 0x11111111'']" using items lines by (simp add: item_lines_def)
  moreover have "item_lines ?a bar0 1 = [''0x0008: 0x22222222'']" using items lines by (simp add: item_lines_def)
  moreover have "item_lines ?a bar0 2 = [''...'']" using items by (simp add: item_lines_def)
  moreover have "[0..<3] = [0, 1, 2]" by (simp add: upt_rec)
  ultimately have "concat (map (item_lines ?a bar0) [0..<3]) = [''0x0004: 0x11111111'', ''0x0008: 0x22222222'', ''...'']"
    by simp
  then show ?thesis using pcimem_dump [OF args_read ok map, of env0] by (simp add: env0_def)
qed

theorem pcimem_write_witness:
  "\<exists>ls. main env0 [''pcimem'', ''res0'', ''4'', ''b*2'', ''0x1ff''] bar0 = Inr (0, ls, buf_put bar0 5 [0xff])
    \<and> last ls = ''Written 0x1FF; readback 0xFF''"
proof -
  let ?a = "\<lparr>filename = ''res0'', target = 4, type_width = 1, items_count = 2, writeval = Some 0x1ff\<rparr> :: pci_args"
  have ok: "args_ok ?a" by (simp add: args_ok_def)
  have map: "mapped ?a bar0" unfolding mapped_def unat_target_base unat_map_size(1) [OF ok] by (simp add: bar0_def)
  show ?thesis
    using pcimem_write [OF args_write ok map, of "0x1ff" env0] by (simp add: env0_def lpad_def fmt_eval)
qed

theorem pcimem_write_no_items_witness:
  "main env0 [''pcimem'', ''res0'', ''4'', ''b*0'', ''1''] bar0 = Inl Bad_access"
  using pcimem_write_no_items [OF args_none, of 1 env0 bar0] by (simp add: env0_def)

end
