(* ===== verification/Irq.thy ===== *)
theory Irq
  imports Cformat Lifecycle
begin

text \<open>
  \<^verbatim>\<open>src/code/irq/myirq.c\<close>: an interrupt handler that counts interrupts and defers work to a tasklet. The
  interrupt line and the scheduler decide when the handler and the tasklet run, so their runs are events
  in any order, also between \<^verbatim>\<open>request_irq\<close> and \<^verbatim>\<open>tasklet_init\<close> in the init function. The tasklet of
  freshly zeroed memory has a null function.
\<close>

section \<open>The module\<close>

record irq_state = kernel +
  irq :: int                  \<comment> \<open>module parameter\<close>
  devname :: string           \<comment> \<open>module parameter\<close>
  dev_data :: u64
  d_irq :: int                \<comment> \<open>the fields of \<^verbatim>\<open>*dev_data\<close>\<close>
  d_p :: string
  d_count :: u32
  tl_func :: bool             \<comment> \<open>the tasklet's function is set\<close>
  tl_sched :: bool            \<comment> \<open>the tasklet is scheduled\<close>
  tl_state :: int             \<comment> \<open>the tasklet's \<^verbatim>\<open>state\<close> and \<^verbatim>\<open>count\<close>, which the kernel keeps\<close>
  tl_count :: int
  klines :: "string list"

definition tasklet_handler :: "irq_state \<Rightarrow> irq_state" where
  "tasklet_handler s = s\<lparr>klines := klines s @ [''tasklet handler entry: count='' @ fmt_d (sint (d_count s)) @
     '', taskletstate='' @ fmt_d (tl_state s) @ '', let count='' @ fmt_d (tl_count s)]\<rparr>"

definition test_handler :: "irq_state \<Rightarrow> irq_state" where
  "test_handler s =
     s\<lparr>klines := klines s @ [''irq handler entry: count='' @ fmt_d (sint (d_count s))],
       tl_sched := True, d_count := d_count s + 1\<rparr>"

text \<open>An event: the line fires (nothing happens unless the handler is registered), or the scheduler gets to
  the tasklet (nothing happens unless it is scheduled).\<close>

datatype irq_event = Interrupt | Tasklet

definition event :: "irq_event \<Rightarrow> irq_state \<Rightarrow> crash + irq_state" where
  "event ev s =
     (case ev of
        Interrupt \<Rightarrow>
          if Irq (irq s) (dev_data s) \<notin> set (held s) then Inr s
          else if Kmem (dev_data s) \<notin> set (held s) then Inl Use_after_free
          else Inr (test_handler s)
      | Tasklet \<Rightarrow>
          if \<not> tl_sched s then Inr s
          else if Kmem (dev_data s) \<notin> set (held s) then Inl Use_after_free
          else if \<not> tl_func s then Inl Null_deref
          else Inr (tasklet_handler (s\<lparr>tl_sched := False\<rparr>)))"

fun events :: "irq_event list \<Rightarrow> irq_state \<Rightarrow> crash + irq_state" where
  "events [] s = Inr s"
| "events (ev # evs) s = andThen (event ev s) (events evs)"

text \<open>The environment of the init function: what \<^verbatim>\<open>kzalloc\<close> and \<^verbatim>\<open>request_irq\<close> return, and the events that
  arrive between \<^verbatim>\<open>request_irq\<close> and \<^verbatim>\<open>tasklet_init\<close>.\<close>

record irq_env =
  kzalloc_ret :: u64
  request_ret :: int
  early :: "irq_event list"

definition testirq_init :: "irq_env \<Rightarrow> irq_state \<Rightarrow> crash + int \<times> irq_state" where
  "testirq_init e s =
     (let s1 = s\<lparr>klines := klines s @ [''test irq entry...''], dev_data := kzalloc_ret e\<rparr>
      in if kzalloc_ret e = 0 then Inr (- 1, s1\<lparr>klines := klines s1 @ [''malloc dev_data fail'']\<rparr>)
         else
           let s2 = acquire (Kmem (kzalloc_ret e)) s1\<lparr>d_irq := 0, d_p := '''', d_count := 0, tl_func := False, tl_sched := False\<rparr>
           in if request_ret e \<noteq> 0 then
                andThen (release_ptr Kmem (dev_data s2) s2) (\<lambda>s3. Inr (- 1, s3\<lparr>klines := klines s3 @ [''request irq fail'']\<rparr>))
              else
                andThen (events (early e) (acquire (Irq (irq s2) (dev_data s2)) s2)) (\<lambda>s3.
                  Inr (0, s3\<lparr>d_irq := irq s3, d_p := devname s3, d_count := 0, tl_func := True, tl_sched := False\<rparr>)))"

text \<open>\<^verbatim>\<open>tasklet_kill\<close> waits until a scheduled tasklet has run.\<close>

definition testirq_exit :: "irq_state \<Rightarrow> crash + irq_state" where
  "testirq_exit s =
     (if Kmem (dev_data s) \<notin> set (held s) then Inl Use_after_free
      else andThen (release (Irq (d_irq s) (dev_data s)) s) (\<lambda>s1.
           andThen (event Tasklet s1) (\<lambda>s2. Inr (s2\<lparr>klines := klines s2 @ [''test irq exit...'']\<rparr>))))"

section \<open>Fixtures\<close>

definition irq0 :: irq_state where
  "irq0 = \<lparr>held = [], irq = 19, devname = ''test'', dev_data = 0, d_irq = 0, d_p = '''', d_count = 0, tl_func = False,
     tl_sched = False, tl_state = 2, tl_count = 0, klines = []\<rparr>"

definition irq_env0 :: irq_env where
  "irq_env0 = \<lparr>kzalloc_ret = 0x1000, request_ret = 0, early = []\<rparr>"

section \<open>Lemmas\<close>

lemma events_append: "events (xs @ ys) s = andThen (events xs s) (events ys)"
  by (induction xs arbitrary: s) (auto simp: andThen_def split: sum.splits)

text \<open>What holds between load and unload.\<close>

definition irq_running :: "irq_state \<Rightarrow> bool" where
  "irq_running s \<longleftrightarrow> tl_func s \<and> d_irq s = irq s \<and>
     Irq (irq s) (dev_data s) \<in> set (held s) \<and> Kmem (dev_data s) \<in> set (held s)"

lemma events_running:
  assumes "irq_running s"
  shows "\<exists>s'. events evs s = Inr s' \<and> irq_running s' \<and> held s' = held s \<and> dev_data s' = dev_data s
    \<and> d_count s' = d_count s + of_nat (length (filter (\<lambda>ev. ev = Interrupt) evs))
    \<and> tl_sched s' = (if evs = [] then tl_sched s else last evs = Interrupt)"
  using assms
proof (induction evs arbitrary: s)
  case (Cons ev evs)
  have "\<exists>s1. event ev s = Inr s1 \<and> irq_running s1 \<and> held s1 = held s \<and> dev_data s1 = dev_data s
    \<and> d_count s1 = d_count s + (if ev = Interrupt then 1 else 0) \<and> tl_sched s1 = (ev = Interrupt)"
    using Cons.prems
    by (cases ev) (auto simp: event_def irq_running_def test_handler_def tasklet_handler_def)
  then obtain s1 where s1: "event ev s = Inr s1" "irq_running s1" "held s1 = held s" "dev_data s1 = dev_data s"
    "d_count s1 = d_count s + (if ev = Interrupt then 1 else 0)" "tl_sched s1 = (ev = Interrupt)" by blast
  show ?case using Cons.IH [OF s1(2)] s1 by (auto simp: add.assoc)
qed simp

lemma testirq_init_ok:
  assumes "kzalloc_ret e \<noteq> 0" and "request_ret e = 0" and "early e = []"
  shows "\<exists>s1. testirq_init e s = Inr (0, s1) \<and> irq_running s1 \<and> d_count s1 = 0 \<and> \<not> tl_sched s1
    \<and> dev_data s1 = kzalloc_ret e \<and> held s1 = Irq (irq s) (kzalloc_ret e) # Kmem (kzalloc_ret e) # held s"
  using assms by (simp add: testirq_init_def Let_def acquire_def irq_running_def)

lemma events_irq: "events evs s = Inr s' \<Longrightarrow> irq s' = irq s"
proof (induction evs arbitrary: s)
  case (Cons ev evs)
  then obtain s1 where s1: "event ev s = Inr s1" "events evs s1 = Inr s'" by (auto simp: andThen_eq_Inr)
  then have "irq s1 = irq s"
    by (auto simp: event_def test_handler_def tasklet_handler_def split: irq_event.splits if_splits)
  with Cons.IH [OF s1(2)] show ?case by simp
qed simp

lemma irq_kept:
  assumes "testirq_init e s = Inr (0, s1)"
  shows "irq s1 = irq s"
  using assms
  by (auto simp: testirq_init_def Let_def acquire_def andThen_eq_Inr release_def release_ptr_def
      dest!: events_irq split: if_splits)

section \<open>Properties\<close>

text \<open>C33. After a load that is granted its memory and its interrupt line and that no interrupt reaches between
  \<^verbatim>\<open>request_irq\<close> and \<^verbatim>\<open>tasklet_init\<close> (one that does makes the module crash, which is shown below), any sequence of interrupts and tasklet runs goes through
  without a crash: the counter is the number of interrupts (modulo 2^32), the tasklet is scheduled exactly
  when the last event was an interrupt, so no interrupt is left without a tasklet run to come, and the
  module can then be unloaded, after which the handler is gone and a further interrupt has no effect.\<close>

theorem testirq_counts:
  assumes "kzalloc_ret e \<noteq> 0" and "request_ret e = 0" and "early e = []"
    and "Irq (irq s) (kzalloc_ret e) \<notin> set (held s)"
  shows "\<exists>s1 s2 s3. testirq_init e s = Inr (0, s1) \<and> events evs s1 = Inr s2
    \<and> d_count s2 = of_nat (length (filter (\<lambda>ev. ev = Interrupt) evs))
    \<and> (tl_sched s2 \<longleftrightarrow> evs \<noteq> [] \<and> last evs = Interrupt)
    \<and> testirq_exit s2 = Inr s3 \<and> event Interrupt s3 = Inr s3 \<and> event Tasklet s3 = Inr s3"
proof -
  obtain s1 where s1: "testirq_init e s = Inr (0, s1)" "irq_running s1" "d_count s1 = 0" "\<not> tl_sched s1"
      "dev_data s1 = kzalloc_ret e" "held s1 = Irq (irq s) (kzalloc_ret e) # Kmem (kzalloc_ret e) # held s"
    using testirq_init_ok [OF assms(1-3)] by blast
  obtain s2 where s2: "events evs s1 = Inr s2" "irq_running s2" "held s2 = held s1" "dev_data s2 = dev_data s1"
      "d_count s2 = d_count s1 + of_nat (length (filter (\<lambda>ev. ev = Interrupt) evs))"
      "tl_sched s2 = (if evs = [] then tl_sched s1 else last evs = Interrupt)"
    using events_running [OF s1(2)] by blast
  have same: "irq s2 = irq s"
    using s1(6) s2(2,3,4) s1(5) assms(1) irq_kept [OF s1(1)] events_irq [OF s2(1)] by simp
  have "\<exists>s3. testirq_exit s2 = Inr s3 \<and> event Interrupt s3 = Inr s3 \<and> event Tasklet s3 = Inr s3"
    using s2(2,3,4) s1(5,6) assms(4) same
    by (auto simp: testirq_exit_def irq_running_def release_def event_def tasklet_handler_def)
  then show ?thesis using s1 s2 by auto
qed

text \<open>The init function requests the interrupt before it sets up the tasklet: an interrupt that
  arrives in between schedules a tasklet without a function, and running it crashes.\<close>

theorem testirq_early_interrupt_crashes:
  assumes "kzalloc_ret e \<noteq> 0" and "request_ret e = 0" and "early e = [Interrupt, Tasklet]"
  shows "testirq_init e s = Inl Null_deref"
  using assms by (simp add: testirq_init_def Let_def acquire_def event_def test_handler_def)

text \<open>A load and unload leaves the memory of \<^verbatim>\<open>dev_data\<close> allocated: no function of the module frees it after a
  successful load.\<close>

theorem testirq_exit_leaks:
  assumes "kzalloc_ret e \<noteq> 0" and "request_ret e = 0" and "early e = []"
  shows "\<exists>s1 s2. testirq_init e s = Inr (0, s1) \<and> testirq_exit s1 = Inr s2
    \<and> mset (held s2) = add_mset (Kmem (kzalloc_ret e)) (mset (held s))"
proof -
  obtain s1 where s1: "testirq_init e s = Inr (0, s1)" "irq_running s1" "\<not> tl_sched s1"
      "dev_data s1 = kzalloc_ret e" "held s1 = Irq (irq s) (kzalloc_ret e) # Kmem (kzalloc_ret e) # held s"
    using testirq_init_ok [OF assms] by blast
  have "irq s1 = irq s" by (rule irq_kept [OF s1(1)])
  with s1 show ?thesis by (auto simp: testirq_exit_def irq_running_def release_def event_def)
qed

section \<open>Witnesses\<close>

theorem testirq_counts_witness:
  "\<exists>s1 s2 s3. testirq_init irq_env0 irq0 = Inr (0, s1) \<and> events [Interrupt, Interrupt, Tasklet, Interrupt] s1 = Inr s2
    \<and> d_count s2 = 3 \<and> tl_sched s2 \<and> testirq_exit s2 = Inr s3"
  using testirq_counts [of irq_env0 irq0 "[Interrupt, Interrupt, Tasklet, Interrupt]"]
  by (auto simp: irq_env0_def irq0_def)

theorem testirq_early_interrupt_crashes_witness:
  "testirq_init (irq_env0\<lparr>early := [Interrupt, Tasklet]\<rparr>) irq0 = Inl Null_deref"
  by (rule testirq_early_interrupt_crashes) (simp_all add: irq_env0_def)

end
