(* ===== verification/Heartbeat.thy ===== *)
theory Heartbeat
  imports Cformat Lifecycle
begin

text \<open>
  \<^verbatim>\<open>src/code/timer/timer.c\<close> in its second version (\<^verbatim>\<open>VERSION 2\<close>, the one that is compiled): a heartbeat timer
  in allocated memory whose callback arms it again. The callback runs on another processor, so it is two
  events: the timer expires and the callback starts, and the callback ends by arming the timer. The first
  version is in \<open>Heartstatic\<close>.
\<close>

section \<open>The module\<close>

record heartbeat = kernel +
  p_heartbeat_timer :: u64
  armed :: bool               \<comment> \<open>the timer is pending\<close>
  running :: bool             \<comment> \<open>the callback has started and not yet ended\<close>
  expires_ms :: nat           \<comment> \<open>the delay the timer was last armed with\<close>
  klines :: "string list"

text \<open>The wrappers of the source; the address \<^verbatim>\<open>kmalloc\<close> returns is an argument.\<close>

definition os_alloc_timerlist :: "u64 \<Rightarrow> heartbeat \<Rightarrow> heartbeat" where
  "os_alloc_timerlist p s = (if p = 0 then s else acquire (Kmem p) s)\<lparr>p_heartbeat_timer := p\<rparr>"

definition os_free_timerlist :: "u64 \<Rightarrow> heartbeat \<Rightarrow> crash + heartbeat" where
  "os_free_timerlist p s = release_ptr Kmem p s"

definition on_timer :: "u64 \<Rightarrow> (heartbeat \<Rightarrow> heartbeat) \<Rightarrow> heartbeat \<Rightarrow> crash + heartbeat" where
  "on_timer p f s =
     (if p = 0 then Inl Null_deref else if Kmem p \<notin> set (held s) then Inl Use_after_free else Inr (f s))"

definition os_timer_setup :: "u64 \<Rightarrow> heartbeat \<Rightarrow> crash + heartbeat" where
  "os_timer_setup p s = on_timer p (\<lambda>s. s\<lparr>armed := False\<rparr>) s"

definition os_mod_timer :: "u64 \<Rightarrow> nat \<Rightarrow> heartbeat \<Rightarrow> crash + heartbeat" where
  "os_mod_timer p millisecond s = on_timer p (\<lambda>s. s\<lparr>armed := True, expires_ms := millisecond\<rparr>) s"

text \<open>\<^verbatim>\<open>del_timer\<close> takes the timer off the queue; it does not wait for a callback that is running.\<close>

definition os_del_timer :: "u64 \<Rightarrow> heartbeat \<Rightarrow> crash + heartbeat" where
  "os_del_timer p s = on_timer p (\<lambda>s. s\<lparr>armed := False\<rparr>) s"

text \<open>The callback: start, when the timer expires, and end.\<close>

datatype beat = Expire | Finish

definition data_lines :: "u64 \<Rightarrow> string list" where
  "data_lines p = map (\<lambda>i. ''data:'' @ fmt_x 0 (unat p) @ '', i:'' @ fmt_d (int i)) [0..<2]"

definition qgpu_heartbeat_callback :: "beat \<Rightarrow> heartbeat \<Rightarrow> crash + heartbeat" where
  "qgpu_heartbeat_callback b s =
     (case b of
        Expire \<Rightarrow>
          if armed s then
            Inr (s\<lparr>armed := False, running := True, klines := klines s @ data_lines (p_heartbeat_timer s)\<rparr>)
          else Inr s
      | Finish \<Rightarrow>
          if running s then os_mod_timer (p_heartbeat_timer s) 1000 (s\<lparr>running := False\<rparr>) else Inr s)"

fun beats :: "beat list \<Rightarrow> heartbeat \<Rightarrow> crash + heartbeat" where
  "beats [] s = Inr s"
| "beats (b # bs) s = andThen (qgpu_heartbeat_callback b s) (beats bs)"

definition qgpu_start_heartbeat_timer :: "u64 \<Rightarrow> heartbeat \<Rightarrow> crash + heartbeat" where
  "qgpu_start_heartbeat_timer p s =
     (let s1 = os_alloc_timerlist p s;
          s2 = s1\<lparr>klines := klines s1 @ [''======start timer p:'' @ fmt_x 0 (unat (p_heartbeat_timer s1))]\<rparr>
      in andThen (os_timer_setup (p_heartbeat_timer s2) s2) (\<lambda>s3. os_mod_timer (p_heartbeat_timer s3) 1 s3))"

definition qgpu_del_timer :: "heartbeat \<Rightarrow> crash + heartbeat" where
  "qgpu_del_timer s =
     andThen (os_del_timer (p_heartbeat_timer s) s) (\<lambda>s1. os_free_timerlist (p_heartbeat_timer s1) s1)"

definition mytimer_init :: "u64 \<Rightarrow> heartbeat \<Rightarrow> crash + int \<times> heartbeat" where
  "mytimer_init p s =
     andThen (qgpu_start_heartbeat_timer p (s\<lparr>klines := klines s @ [''mytimer_init entry...'']\<rparr>)) (\<lambda>s1. Inr (0, s1))"

definition mytimer_exit :: "heartbeat \<Rightarrow> crash + heartbeat" where
  "mytimer_exit s = qgpu_del_timer (s\<lparr>klines := klines s @ [''mytimer_exit exit...'']\<rparr>)"

text \<open>A load that gets its memory, and the life of the module between two moments at which no callback runs.\<close>

definition timer_env_ok :: "u64 \<Rightarrow> heartbeat \<Rightarrow> bool" where
  "timer_env_ok p s \<longleftrightarrow> p \<noteq> 0 \<and> \<not> running s"

inductive timer_step :: "heartbeat \<Rightarrow> heartbeat \<Rightarrow> bool" where
  "beats bs s = Inr s' \<Longrightarrow> \<not> running s' \<Longrightarrow> timer_step s s'"

section \<open>Fixtures\<close>

definition heartbeat0 :: heartbeat where
  "heartbeat0 = \<lparr>held = [], p_heartbeat_timer = 0, armed = False, running = False, expires_ms = 0, klines = []\<rparr>"

section \<open>Lemmas\<close>

text \<open>The timer's memory is there and the heart beats: the timer is armed or its callback is running.\<close>

definition beating :: "resource multiset \<Rightarrow> heartbeat \<Rightarrow> bool" where
  "beating base s \<longleftrightarrow> p_heartbeat_timer s \<noteq> 0 \<and> (armed s \<or> running s) \<and>
     mset (held s) = add_mset (Kmem (p_heartbeat_timer s)) base"

lemma beating_mem: "beating base s \<Longrightarrow> Kmem (p_heartbeat_timer s) \<in> set (held s)"
  by (metis beating_def set_mset_mset union_single_eq_member)

lemma callback_beating:
  assumes "beating base s"
  shows "\<exists>s'. qgpu_heartbeat_callback b s = Inr s' \<and> beating base s' \<and> p_heartbeat_timer s' = p_heartbeat_timer s"
  using assms beating_mem [OF assms]
  by (cases b) (auto simp: qgpu_heartbeat_callback_def os_mod_timer_def on_timer_def beating_def)

lemma beats_beating:
  assumes "beating base s"
  shows "\<exists>s'. beats bs s = Inr s' \<and> beating base s' \<and> p_heartbeat_timer s' = p_heartbeat_timer s"
  using assms
proof (induction bs arbitrary: s)
  case (Cons b bs)
  obtain s1 where s1: "qgpu_heartbeat_callback b s = Inr s1" "beating base s1" "p_heartbeat_timer s1 = p_heartbeat_timer s"
    using callback_beating [OF Cons.prems] by blast
  then show ?case using Cons.IH [OF s1(2)] by simp
qed simp

lemma mytimer_init_beating:
  assumes "p \<noteq> 0"
  shows "\<exists>s1. mytimer_init p s = Inr (0, s1) \<and> beating (mset (held s)) s1 \<and> p_heartbeat_timer s1 = p \<and> armed s1"
  using assms
  by (simp add: mytimer_init_def qgpu_start_heartbeat_timer_def os_alloc_timerlist_def os_timer_setup_def
      os_mod_timer_def on_timer_def acquire_def Let_def beating_def)

text \<open>Unloading while no callback runs is clean, and then nothing happens any more.\<close>

lemma mytimer_exit_clean:
  assumes "beating base s" and "\<not> running s"
  shows "\<exists>s'. mytimer_exit s = Inr s' \<and> mset (held s') = base \<and> (\<forall>b. qgpu_heartbeat_callback b s' = Inr s')"
  using assms beating_mem [OF assms(1)]
  by (auto simp: mytimer_exit_def qgpu_del_timer_def os_del_timer_def os_free_timerlist_def on_timer_def
      release_ptr_def release_def beating_def qgpu_heartbeat_callback_def split: beat.split)

lemma mytimer_init_running: "mytimer_init p s = Inr (r, s1) \<Longrightarrow> running s1 = running s \<and> r = 0"
  by (auto simp: mytimer_init_def qgpu_start_heartbeat_timer_def os_alloc_timerlist_def os_timer_setup_def
      os_mod_timer_def on_timer_def acquire_def Let_def andThen_eq_Inr split: if_splits)

text \<open>The module contract, for unloads that do not meet a running callback.\<close>

interpretation hb: kmodule "\<lambda>s. mset (held s)" timer_env_ok mytimer_init timer_step mytimer_exit
    "\<lambda>base s. beating base s \<and> \<not> running s"
proof unfold_locales
  fix p :: u64 and s s' :: heartbeat and r :: int
  assume env: "timer_env_ok p s"
  then show "\<exists>r s'. mytimer_init p s = Inr (r, s')" using mytimer_init_beating [of p s] by (auto simp: timer_env_ok_def)
  assume "mytimer_init p s = Inr (r, s')"
  then show "r \<noteq> 0 \<Longrightarrow> mset (held s') = mset (held s)" using mytimer_init_running by blast
next
  fix p :: u64 and s s' :: heartbeat
  assume "timer_env_ok p s" and "mytimer_init p s = Inr (0, s')"
  then show "beating (mset (held s)) s' \<and> \<not> running s'"
    using mytimer_init_beating [of p s] mytimer_init_running [of p s 0 s'] by (auto simp: timer_env_ok_def)
next
  fix base and s s' :: heartbeat
  assume "beating base s \<and> \<not> running s" and "timer_step s s'"
  then show "beating base s' \<and> \<not> running s'"
    using beats_beating [of base s] by (auto elim!: timer_step.cases) (metis sum.inject(2))
next
  fix base and s :: heartbeat
  assume "beating base s \<and> \<not> running s"
  then show "\<exists>s'. mytimer_exit s = Inr s' \<and> mset (held s') = base" using mytimer_exit_clean by blast
qed

lemma heartbeat_lifetimes_runs: "\<exists>s. lifetime timer_env_ok mytimer_init timer_step mytimer_exit heartbeat0 s"
proof -
  have env: "timer_env_ok 0x1000 heartbeat0" by (simp add: timer_env_ok_def heartbeat0_def)
  then obtain s1 where "mytimer_init 0x1000 heartbeat0 = Inr (0, s1)" using mytimer_init_beating [of "0x1000"] by auto
  with env show ?thesis by (rule hb.lifetime_exists)
qed

section \<open>Properties\<close>

text \<open>C32. Once loaded, the heart keeps beating: after any sequence of expirations and callback ends the
  timer is armed or its callback is running, and nothing crashes. Unloading the module when no callback
  runs frees the timer, and no later event has any effect.\<close>

theorem heartbeat_keeps_beating:
  assumes "p \<noteq> 0"
  shows "\<exists>s1 s2. mytimer_init p s = Inr (0, s1) \<and> beats bs s1 = Inr s2 \<and> (armed s2 \<or> running s2)
    \<and> (running s2 \<or> (\<exists>s3. mytimer_exit s2 = Inr s3 \<and> mset (held s3) = mset (held s)
          \<and> (\<forall>b. qgpu_heartbeat_callback b s3 = Inr s3)))"
proof -
  obtain s1 where s1: "mytimer_init p s = Inr (0, s1)" "beating (mset (held s)) s1"
    using mytimer_init_beating [OF assms] by blast
  obtain s2 where s2: "beats bs s1 = Inr s2" "beating (mset (held s)) s2" using beats_beating [OF s1(2)] by blast
  then have "armed s2 \<or> running s2" by (simp add: beating_def)
  with s1(1) s2 mytimer_exit_clean [OF s2(2)] show ?thesis by blast
qed

text \<open>Unloading the module while the callback runs frees the timer under it: \<^verbatim>\<open>del_timer\<close> does not wait, and
  the callback then arms a timer in freed memory.\<close>

theorem heartbeat_exit_race:
  assumes "p \<noteq> 0" and "Kmem p \<notin> set (held s)"
  shows "\<exists>s1 s2 s3. mytimer_init p s = Inr (0, s1) \<and> qgpu_heartbeat_callback Expire s1 = Inr s2
    \<and> mytimer_exit s2 = Inr s3 \<and> qgpu_heartbeat_callback Finish s3 = Inl Use_after_free"
  using assms
  by (simp add: mytimer_init_def qgpu_start_heartbeat_timer_def os_alloc_timerlist_def os_timer_setup_def
      os_mod_timer_def on_timer_def acquire_def Let_def qgpu_heartbeat_callback_def mytimer_exit_def
      qgpu_del_timer_def os_del_timer_def os_free_timerlist_def release_ptr_def release_def)

text \<open>Loading without memory for the timer sets up a null timer.\<close>

theorem heartbeat_no_memory: "mytimer_init 0 s = Inl Null_deref"
  by (simp add: mytimer_init_def qgpu_start_heartbeat_timer_def os_alloc_timerlist_def os_timer_setup_def on_timer_def)

section \<open>Witnesses\<close>

theorem heartbeat_keeps_beating_witness:
  "\<exists>s1 s2. mytimer_init 0x1000 heartbeat0 = Inr (0, s1) \<and> beats [Expire, Finish, Expire] s1 = Inr s2 \<and> (armed s2 \<or> running s2)"
  using heartbeat_keeps_beating [of "0x1000" heartbeat0 "[Expire, Finish, Expire]"] by auto

theorem heartbeat_exit_race_witness:
  "\<exists>s1 s2 s3. mytimer_init 0x1000 heartbeat0 = Inr (0, s1) \<and> qgpu_heartbeat_callback Expire s1 = Inr s2
    \<and> mytimer_exit s2 = Inr s3 \<and> qgpu_heartbeat_callback Finish s3 = Inl Use_after_free"
  using heartbeat_exit_race [of "0x1000" heartbeat0] by (simp add: heartbeat0_def)

end
