(* ===== verification/Heartstatic.thy ===== *)
theory Heartstatic
  imports Heartbeat
begin

text \<open>
  \<^verbatim>\<open>src/code/timer/timer.c\<close> in its first version (\<^verbatim>\<open>VERSION 1\<close>, lines 19 to 42): the timer is a static
  variable of the module, so it lives and dies with the module's memory instead of with an allocation.
  The two versions are compared: while the module is loaded they do the same, and they differ in the
  first delay and in what an unload leaves behind. Names of the source are kept with the suffix \<open>_v1\<close>.
\<close>

section \<open>The module\<close>

record heartbeat_v1 =
  qgpu_timer_heartbeat :: u64      \<comment> \<open>the address of the static timer\<close>
  mapped_v1 :: bool                \<comment> \<open>the module's code and data are in memory\<close>
  armed_v1 :: bool
  running_v1 :: bool
  expires_v1 :: nat
  klines_v1 :: "string list"

text \<open>The timer functions on the static timer, which is there as long as the module is.\<close>

definition on_static :: "(heartbeat_v1 \<Rightarrow> heartbeat_v1) \<Rightarrow> heartbeat_v1 \<Rightarrow> crash + heartbeat_v1" where
  "on_static f s = (if mapped_v1 s then Inr (f s) else Inl Use_after_free)"

definition mod_timer_v1 :: "nat \<Rightarrow> heartbeat_v1 \<Rightarrow> crash + heartbeat_v1" where
  "mod_timer_v1 ms s = on_static (\<lambda>s. s\<lparr>armed_v1 := True, expires_v1 := ms\<rparr>) s"

text \<open>The callback, as two events; expiring reads the timer and the code it points to.\<close>

definition qgpu_heartbeat_callback_v1 :: "beat \<Rightarrow> heartbeat_v1 \<Rightarrow> crash + heartbeat_v1" where
  "qgpu_heartbeat_callback_v1 b s =
     (case b of
        Expire \<Rightarrow>
          if armed_v1 s then
            on_static (\<lambda>s. s\<lparr>armed_v1 := False, running_v1 := True,
              klines_v1 := klines_v1 s @ data_lines (qgpu_timer_heartbeat s)\<rparr>) s
          else Inr s
      | Finish \<Rightarrow> if running_v1 s then mod_timer_v1 1000 (s\<lparr>running_v1 := False\<rparr>) else Inr s)"

fun beats_v1 :: "beat list \<Rightarrow> heartbeat_v1 \<Rightarrow> crash + heartbeat_v1" where
  "beats_v1 [] s = Inr s"
| "beats_v1 (b # bs) s = andThen (qgpu_heartbeat_callback_v1 b s) (beats_v1 bs)"

definition qgpu_start_heartbeat_timer_v1 :: "heartbeat_v1 \<Rightarrow> crash + heartbeat_v1" where
  "qgpu_start_heartbeat_timer_v1 s =
     (let s1 = s\<lparr>klines_v1 := klines_v1 s @ [''start timer p:'' @ fmt_x 0 (unat (qgpu_timer_heartbeat s))]\<rparr>
      in andThen (on_static (\<lambda>s. s\<lparr>armed_v1 := False\<rparr>) s1) (mod_timer_v1 1000))"

definition qgpu_del_timer_v1 :: "heartbeat_v1 \<Rightarrow> crash + heartbeat_v1" where
  "qgpu_del_timer_v1 s = on_static (\<lambda>s. s\<lparr>armed_v1 := False\<rparr>) s"

definition mytimer_init_v1 :: "heartbeat_v1 \<Rightarrow> crash + int \<times> heartbeat_v1" where
  "mytimer_init_v1 s =
     andThen (qgpu_start_heartbeat_timer_v1 (s\<lparr>klines_v1 := klines_v1 s @ [''mytimer_init entry...'']\<rparr>))
       (\<lambda>s1. Inr (0, s1))"

definition mytimer_exit_v1 :: "heartbeat_v1 \<Rightarrow> crash + heartbeat_v1" where
  "mytimer_exit_v1 s = qgpu_del_timer_v1 (s\<lparr>klines_v1 := klines_v1 s @ [''mytimer_exit exit...'']\<rparr>)"

text \<open>The loader gives the module its memory before it calls the init function and takes it back after
  the exit function returned.\<close>

definition insmod_v1 :: "u64 \<Rightarrow> heartbeat_v1 \<Rightarrow> crash + int \<times> heartbeat_v1" where
  "insmod_v1 p s = mytimer_init_v1 (s\<lparr>qgpu_timer_heartbeat := p, mapped_v1 := True\<rparr>)"

definition free_module_v1 :: "heartbeat_v1 \<Rightarrow> heartbeat_v1" where
  "free_module_v1 s = s\<lparr>mapped_v1 := False\<rparr>"

section \<open>Comparison with the second version\<close>

text \<open>The two versions side by side: the same timer state, the same timer address, and the same lines
  printed since the start; the delays agree once a callback has run.\<close>

definition same_heart :: "string list \<Rightarrow> string list \<Rightarrow> heartbeat \<Rightarrow> heartbeat_v1 \<Rightarrow> bool" where
  "same_heart l2 l1 s t \<longleftrightarrow> mapped_v1 t \<and> p_heartbeat_timer s = qgpu_timer_heartbeat t \<and> armed_v1 t = armed s
     \<and> running_v1 t = running s \<and> (\<exists>new. klines s = l2 @ new \<and> klines_v1 t = l1 @ new
     \<and> (expires_v1 t = expires_ms s \<or> expires_ms s = 1 \<and> expires_v1 t = 1000))"

section \<open>Fixtures\<close>

definition heartbeat_v1_0 :: heartbeat_v1 where
  "heartbeat_v1_0 = \<lparr>qgpu_timer_heartbeat = 0, mapped_v1 = False, armed_v1 = False, running_v1 = False,
     expires_v1 = 0, klines_v1 = []\<rparr>"

section \<open>Lemmas\<close>

lemmas v1_defs = on_static_def mod_timer_v1_def qgpu_heartbeat_callback_v1_def qgpu_start_heartbeat_timer_v1_def
  qgpu_del_timer_v1_def mytimer_init_v1_def mytimer_exit_v1_def insmod_v1_def free_module_v1_def

lemma callback_same_heart:
  assumes "beating base s" and "same_heart l2 l1 s t"
  shows "\<exists>s' t'. qgpu_heartbeat_callback b s = Inr s' \<and> qgpu_heartbeat_callback_v1 b t = Inr t'
    \<and> beating base s' \<and> same_heart l2 l1 s' t' \<and> (b = Finish \<and> running s \<longrightarrow> expires_v1 t' = expires_ms s')"
  using assms beating_mem [OF assms(1)]
  by (cases b) (auto simp: qgpu_heartbeat_callback_def os_mod_timer_def on_timer_def beating_def same_heart_def v1_defs)

lemma beats_same_heart:
  assumes "beating base s" and "same_heart l2 l1 s t"
  shows "\<exists>s' t'. beats bs s = Inr s' \<and> beats_v1 bs t = Inr t' \<and> beating base s' \<and> same_heart l2 l1 s' t'"
  using assms
proof (induction bs arbitrary: s t)
  case (Cons b bs)
  from callback_same_heart [OF Cons.prems, of b] obtain s1 t1
    where "qgpu_heartbeat_callback b s = Inr s1" "qgpu_heartbeat_callback_v1 b t = Inr t1"
      "beating base s1" "same_heart l2 l1 s1 t1" by blast
  then show ?case using Cons.IH [of s1 t1] by simp
qed auto

text \<open>Loading brings the two versions side by side.\<close>

lemma inits_same_heart:
  assumes "p \<noteq> 0" and "running_v1 t = running s"
  shows "\<exists>s1 t1. mytimer_init p s = Inr (0, s1) \<and> insmod_v1 p t = Inr (0, t1) \<and> beating (mset (held s)) s1
    \<and> same_heart (klines s1) (klines_v1 t1) s1 t1 \<and> expires_ms s1 = 1 \<and> expires_v1 t1 = 1000"
  using assms
  by (simp add: mytimer_init_def qgpu_start_heartbeat_timer_def os_alloc_timerlist_def os_timer_setup_def
      os_mod_timer_def on_timer_def acquire_def Let_def beating_def same_heart_def v1_defs)

section \<open>Properties\<close>

text \<open>C28. The two versions of the heartbeat do the same while the module is loaded: with the timer at the same
  address, every sequence of expirations and callback ends runs without a crash in both, prints the same
  lines and leaves the timer armed or its callback running in both. The delays differ at most by the first
  one, 1 ms against 1000 ms.\<close>

theorem heartbeat_versions_agree:
  assumes "p \<noteq> 0" and "running_v1 t = running s"
  shows "\<exists>s1 s2 t1 t2 new. mytimer_init p s = Inr (0, s1) \<and> insmod_v1 p t = Inr (0, t1)
    \<and> beats bs s1 = Inr s2 \<and> beats_v1 bs t1 = Inr t2
    \<and> armed_v1 t2 = armed s2 \<and> running_v1 t2 = running s2 \<and> (armed s2 \<or> running s2)
    \<and> klines s2 = klines s1 @ new \<and> klines_v1 t2 = klines_v1 t1 @ new
    \<and> (expires_v1 t2 = expires_ms s2 \<or> expires_ms s2 = 1 \<and> expires_v1 t2 = 1000)"
proof -
  obtain s1 t1 where init: "mytimer_init p s = Inr (0, s1)" "insmod_v1 p t = Inr (0, t1)"
      "beating (mset (held s)) s1" "same_heart (klines s1) (klines_v1 t1) s1 t1"
    using inits_same_heart [OF assms] by blast
  from beats_same_heart [OF init(3,4), of bs] obtain s2 t2
    where "beats bs s1 = Inr s2" "beats_v1 bs t1 = Inr t2" "beating (mset (held s)) s2"
      "same_heart (klines s1) (klines_v1 t1) s2 t2" by blast
  with init(1,2) show ?thesis unfolding same_heart_def beating_def by blast
qed

text \<open>Unloading the first version while its callback runs: the callback arms the timer after
  \<^verbatim>\<open>del_timer\<close>, the module's memory goes, and the next expiration reads a timer that is no longer there.
  When no callback runs, the unload is clean.\<close>

theorem heartbeat_v1_exit_race:
  "\<exists>t1 t2 t3 t4. insmod_v1 p t = Inr (0, t1) \<and> qgpu_heartbeat_callback_v1 Expire t1 = Inr t2
    \<and> mytimer_exit_v1 t2 = Inr t3 \<and> qgpu_heartbeat_callback_v1 Finish t3 = Inr t4 \<and> armed_v1 t4
    \<and> qgpu_heartbeat_callback_v1 Expire (free_module_v1 t4) = Inl Use_after_free"
  by (simp add: v1_defs Let_def)

lemma heartbeat_v1_exit_clean:
  assumes "mapped_v1 t" and "\<not> running_v1 t"
  shows "\<exists>t'. mytimer_exit_v1 t = Inr t' \<and> qgpu_heartbeat_callback_v1 b (free_module_v1 t') = Inr (free_module_v1 t')"
  using assms by (cases b) (simp_all add: v1_defs)

section \<open>Witnesses\<close>

theorem heartbeat_versions_agree_witness:
  "\<exists>s1 s2 t1 t2. mytimer_init 0x1000 heartbeat0 = Inr (0, s1) \<and> insmod_v1 0x1000 heartbeat_v1_0 = Inr (0, t1)
    \<and> beats [Expire, Finish] s1 = Inr s2 \<and> beats_v1 [Expire, Finish] t1 = Inr t2 \<and> armed_v1 t2 = armed s2"
  using heartbeat_versions_agree [of "0x1000" heartbeat_v1_0 heartbeat0 "[Expire, Finish]"]
  by (auto simp: heartbeat0_def heartbeat_v1_0_def)

end
