(* ===== verification/Anamem.thy ===== *)
theory Anamem
  imports Cformat Lifecycle
begin

text \<open>
  \<^verbatim>\<open>src/code/ana_mem/anamem.c\<close>: a module that maps the register window of a GPU, times 10000 writes to one
  register and reports the extremes and the average, and tells from one more write whether a hypervisor
  traps the access. The cycle counter readings and the results of the kernel's allocators are parameters.
  A mapping is the list of the page frames behind it; a register write is recorded with its physical
  address. The two \<^verbatim>\<open>while (0)\<close> blocks of the init function never run; they are in \<open>Anarounds\<close>.
\<close>

section \<open>The module\<close>

definition GPU_BAR0_PA :: u64 where "GPU_BAR0_PA = 0xFC000000"
definition GPU_MAP_LEN :: u64 where "GPU_MAP_LEN = 0x1000000"
definition GPU_OFFSET :: u64 where "GPU_OFFSET = 0xbb0080"
definition TRY_TIMES :: nat where "TRY_TIMES = 10000"
definition MAX_MMIO_CYCLES :: u64 where "MAX_MMIO_CYCLES = 1000"

record anamem = kernel +
  mapping :: "u64 \<rightharpoonup> u64 list"   \<comment> \<open>page frames behind a mapped address\<close>
  writes :: "(u64 \<times> u32) list"      \<comment> \<open>physical address and value of each register write\<close>
  klines :: "string list"

text \<open>The answers of the kernel: \<^verbatim>\<open>kmalloc_array\<close>, \<^verbatim>\<open>vmap\<close>, \<^verbatim>\<open>is_vmalloc_addr\<close>, and the pairs of cycle counter
  readings around write \<open>i\<close> of the loop and around the last write.\<close>

record ana_env =
  kmalloc_ret :: u64
  vmap_ret :: u64
  is_vmalloc_addr :: "u64 \<Rightarrow> bool"
  loop_cycles :: "nat \<Rightarrow> u64 \<times> u64"
  probe_cycles :: "u64 \<times> u64"

definition n_page :: "u64 \<Rightarrow> u64" where
  "n_page sz = (sz + PAGE_SIZE - 1) div PAGE_SIZE"

text \<open>The page array of \<^verbatim>\<open>qgpu_vmap_pfn\<close>, from index \<open>i\<close> on. The counter is an \<^verbatim>\<open>unsigned int\<close> and is compared with the
  64-bit \<^verbatim>\<open>n_page\<close>: it wraps, and the loop does not end when there are \<^term>\<open>(2::nat) ^ 32\<close> pages or more.\<close>

partial_function (option) pages_from :: "u64 \<Rightarrow> u32 \<Rightarrow> u64 \<Rightarrow> u64 list option" where
  "pages_from phys_addr_start i n =
     (if ucast i < n then
        Option.bind (pages_from phys_addr_start (i + 1) n) (\<lambda>rest.
          Some (drop_bit PAGE_SHIFT (phys_addr_start + ucast i * PAGE_SIZE) # rest))
      else Some [])"

definition qgpu_vmap_pfn :: "ana_env \<Rightarrow> u64 \<Rightarrow> u64 \<Rightarrow> anamem \<Rightarrow> crash + u64 \<times> anamem" where
  "qgpu_vmap_pfn e phys_addr sz s =
     (if kmalloc_ret e = 0 then Inr (0, s)
      else
        let s1 = acquire (Kmem (kmalloc_ret e)) s
        in andThen (looping (map_option Inr (pages_from (phys_addr - phys_addr mod PAGE_SIZE) 0 (n_page sz)))) (\<lambda>pages.
           let s2 = (if vmap_ret e = 0 then s1
                     else acquire (Vmap (vmap_ret e)) s1\<lparr>mapping := (mapping s1)(vmap_ret e \<mapsto> pages)\<rparr>)
           in andThen (release_ptr Kmem (kmalloc_ret e) s2) (\<lambda>s3. Inr (vmap_ret e, s3))))"

definition qgpu_vunmap :: "ana_env \<Rightarrow> u64 \<Rightarrow> anamem \<Rightarrow> crash + anamem" where
  "qgpu_vunmap e addr s =
     (if is_vmalloc_addr e addr
      then andThen (release (Vmap addr) s) (\<lambda>s1. Inr (s1\<lparr>mapping := (mapping s1)(addr := None)\<rparr>))
      else Inr s)"

definition os_writel :: "u32 \<Rightarrow> u64 \<Rightarrow> u64 \<Rightarrow> anamem \<Rightarrow> crash + anamem" where
  "os_writel val addr off s =
     (case mapping s addr of
        None \<Rightarrow> Inl Bad_access
      | Some pages \<Rightarrow>
          if unat off + 4 \<le> 4096 * length pages
          then Inr (s\<lparr>writes := writes s @ [(pages ! (unat off div 4096) * PAGE_SIZE + off mod PAGE_SIZE, val)]\<rparr>)
          else Inl Bad_access)"

definition is_mmio_tracing_by_hypervisor :: "ana_env \<Rightarrow> u64 \<Rightarrow> anamem \<Rightarrow> crash + int \<times> anamem" where
  "is_mmio_tracing_by_hypervisor e addr s =
     andThen (os_writel 0x1000 addr GPU_OFFSET s) (\<lambda>s1.
       let cur_cycle = snd (probe_cycles e) - fst (probe_cycles e)
       in Inr (if cur_cycle > MAX_MMIO_CYCLES then 1 else 0, s1))"

record stats =
  cycle_max :: u64
  cycle_min :: u64
  ave_cycle :: u64

definition cur_cycle :: "ana_env \<Rightarrow> nat \<Rightarrow> u64" where
  "cur_cycle e i = snd (loop_cycles e i) - fst (loop_cycles e i)"

definition note_cycle :: "u64 \<Rightarrow> stats \<Rightarrow> stats" where
  "note_cycle c st =
     st\<lparr>cycle_max := (if cycle_max st > c then cycle_max st else c),
        cycle_min := (if cycle_min st < c then cycle_min st else c),
        ave_cycle := ave_cycle st + c\<rparr>"

definition lld :: "u64 \<Rightarrow> string" where
  "lld x = fmt_d (sint x)"

definition unnormal_line :: "nat \<Rightarrow> u64 \<Rightarrow> string" where
  "unnormal_line i c = ''UNNORMAL WRITE Time:'' @ fmt_d (int i) @ '', to 0x'' @ fmt_x 0 (unat GPU_OFFSET) @ '', cur cycle:'' @ lld c"

text \<open>The timing loop from write \<open>i\<close> on.\<close>

function time_from :: "ana_env \<Rightarrow> u64 \<Rightarrow> nat \<Rightarrow> stats \<Rightarrow> anamem \<Rightarrow> crash + stats \<times> anamem" where
  "time_from e bar0_va i st s =
     (if i < TRY_TIMES then
        andThen (os_writel 0x1000 bar0_va GPU_OFFSET s) (\<lambda>s1.
          let c = cur_cycle e i
          in time_from e bar0_va (Suc i) (note_cycle c st)
               (if c > 400 then s1\<lparr>klines := klines s1 @ [unnormal_line i c]\<rparr> else s1))
      else Inr (st, s))"
  by pat_completeness auto
termination
  by (relation "measure (\<lambda>(e, b, i, st, s). TRY_TIMES - i)") auto

declare time_from.simps [simp del]

definition report_line :: "stats \<Rightarrow> string" where
  "report_line st = ''===Time:'' @ fmt_d (int TRY_TIMES) @ '', write offset to 0x'' @ fmt_x 0 (unat GPU_OFFSET) @
     '', cycles max:'' @ lld (cycle_max st) @ '', min:'' @ lld (cycle_min st) @
     '', ave:'' @ lld (ave_cycle st div of_nat TRY_TIMES)"

definition ana_mem_init :: "ana_env \<Rightarrow> anamem \<Rightarrow> crash + int \<times> anamem" where
  "ana_mem_init e s =
     andThen (qgpu_vmap_pfn e GPU_BAR0_PA GPU_MAP_LEN s) (\<lambda>(bar0_va, s1).
       if bar0_va = 0 then Inr (- 1, s1\<lparr>klines := klines s1 @ [''vmap pfn fail'']\<rparr>)
       else
         let s2 = s1\<lparr>klines := klines s1 @ [''bar0_pa:0x'' @ fmt_x 0 (unat GPU_BAR0_PA) @ '', bar0_va:0x'' @ fmt_x 0 (unat bar0_va)]\<rparr>
         in andThen (time_from e bar0_va 0 \<lparr>cycle_max = 0, cycle_min = 8000000, ave_cycle = 0\<rparr> s2) (\<lambda>(st, s3).
            let s4 = s3\<lparr>klines := klines s3 @
                  [''=================print all WRITE statistic info=================='', report_line st]\<rparr>
            in andThen (is_mmio_tracing_by_hypervisor e bar0_va s4) (\<lambda>(tracing, s5).
               let s6 = s5\<lparr>klines := klines s5 @
                     [if tracing \<noteq> 0 then ''*****mmio is tracing by hypervisor*****''
                      else ''*****mmio is NOT tracing by hypervisor*****'']\<rparr>
               in andThen (qgpu_vunmap e bar0_va s6) (\<lambda>s7. Inr (0, s7)))))"

definition ana_mem_exit :: "anamem \<Rightarrow> crash + anamem" where
  "ana_mem_exit s = Inr (s\<lparr>klines := klines s @ [''Bye ana_mem'']\<rparr>)"

section \<open>Specification\<close>

definition cycles :: "ana_env \<Rightarrow> u64 list" where
  "cycles e = map (cur_cycle e) [0..<TRY_TIMES]"

text \<open>The page frames of \<open>n\<close> pages from a physical address on.\<close>

definition frames :: "u64 \<Rightarrow> nat \<Rightarrow> u64 list" where
  "frames p n = map (\<lambda>j. drop_bit 12 (p + of_nat j * 4096)) [0..<n]"

text \<open>What \<^verbatim>\<open>vmap\<close> promises: its addresses are vmalloc addresses.\<close>

definition ana_env_ok :: "ana_env \<Rightarrow> anamem \<Rightarrow> bool" where
  "ana_env_ok e s \<longleftrightarrow> vmap_ret e \<noteq> 0 \<longrightarrow> is_vmalloc_addr e (vmap_ret e)"

definition anamem0 :: anamem where
  "anamem0 = \<lparr>held = [], mapping = Map.empty, writes = [], klines = []\<rparr>"

definition ana_env0 :: ana_env where
  "ana_env0 = \<lparr>kmalloc_ret = 0x1000, vmap_ret = 0x2000, is_vmalloc_addr = \<lambda>_. True,
     loop_cycles = \<lambda>i. (100, 300), probe_cycles = (0, 5000)\<rparr>"

section \<open>Lemmas\<close>

lemma pages_from_upto:
  assumes "unat n < 2 ^ 32" and "i \<le> unat n"
  shows "pages_from p (of_nat i) n = Some (map (\<lambda>j. drop_bit 12 (p + of_nat j * 4096)) [i..<unat n])"
  using assms(2)
proof (induction "unat n - i" arbitrary: i)
  case 0
  then have "i = unat n" by simp
  moreover have "unat (of_nat (unat n) :: u32) = unat n" using assms(1) by (simp add: unat_ucast_mod)
  ultimately have "\<not> (ucast (of_nat i :: u32) :: u64) < n" by (simp add: word_less_nat_alt unat_ucast_mod)
  then have "pages_from p (of_nat i) n = Some []" by (subst pages_from.simps) (simp only: if_False)
  then show ?case using 0 by simp
next
  case (Suc m)
  then have i: "i < unat n" by simp
  then have "unat (of_nat i :: u32) = i" using assms(1) by (simp add: unat_of_nat)
  then have u: "(ucast (of_nat i :: u32) :: u64) = of_nat i"
    using i assms(1) by (simp add: word_unat_eq_iff unat_ucast_mod unat_of_nat)
  have "(of_nat i :: u64) < n" using i assms(1) by (simp add: word_less_nat_alt unat_of_nat)
  moreover have "pages_from p (of_nat (Suc i)) n = Some (map (\<lambda>j. drop_bit 12 (p + of_nat j * 4096)) [Suc i..<unat n])"
    by (rule Suc.hyps(1)) (use Suc.hyps(2) i in auto)
  ultimately show ?case
    using i by (simp add: pages_from.simps [of p "of_nat i"] u upt_conv_Cons add.commute)
qed

lemma pages_from_frames: "unat n < 2 ^ 32 \<Longrightarrow> pages_from p 0 n = Some (frames p (unat n))"
  using pages_from_upto [of n 0 p] by (simp add: frames_def)

lemma pages_from_ends:
  assumes "pages_from p i n = Some xs"
  shows "unat n < 2 ^ 32"
proof -
  have top: "unat n < 2 ^ 32" if "\<not> ucast i < n" for i :: u32 and n :: u64
  proof -
    have "unat n \<le> unat i" using that by (simp add: word_less_nat_alt unat_ucast_mod not_less)
    also have "unat i < 2 ^ 32" using unsigned_less [of i] by simp
    finally show ?thesis .
  qed
  show ?thesis
    by (rule pages_from.raw_induct [where P = "\<lambda>p i n xs. unat n < 2 ^ 32", OF _ assms])
      (use top in \<open>auto split: if_splits Option.bind_splits\<close>)
qed

text \<open>Page \<open>j\<close> of a mapping is the page of the aligned start at that distance.\<close>

lemma frame_of_page:
  fixes p :: u64
  assumes "unat p mod 4096 = 0" and "unat p + 4096 * Suc j \<le> 2 ^ 64"
  shows "drop_bit 12 (p + of_nat j * 4096) * 4096 = p + of_nat (4096 * j)"
proof -
  let ?a = "p + of_nat j * 4096 :: u64"
  have eq: "?a = p + of_nat (4096 * j)" by (simp add: mult.commute)
  have "unat (of_nat (4096 * j) :: u64) = 4096 * j" using assms(2) by (simp add: unat_of_nat del: of_nat_mult)
  then have "unat ?a = unat p + 4096 * j" unfolding eq using assms(2) by (simp add: unat_word_ariths del: of_nat_mult)
  then have low: "unat ?a mod 4096 = 0" using assms(1) by simp
  have "drop_bit 12 ?a * 4096 = push_bit 12 (drop_bit 12 ?a)" by (simp add: push_bit_eq_mult)
  also have "\<dots> = ?a - take_bit 12 ?a" by (metis add_diff_cancel_right' bits_ident)
  also have "take_bit 12 ?a = 0"
    using low by (simp add: word_unat_eq_iff take_bit_eq_mod unat_mod_distrib)
  finally show ?thesis by (simp add: ac_simps)
qed

text \<open>The statistics of a list of cycle counts.\<close>

lemma note_cycles:
  "fold note_cycle cs st =
     st\<lparr>cycle_max := fold max cs (cycle_max st), cycle_min := fold min cs (cycle_min st),
        ave_cycle := ave_cycle st + sum_list cs\<rparr>"
proof (induction cs arbitrary: st)
  case (Cons c cs)
  have "note_cycle c st = st\<lparr>cycle_max := max c (cycle_max st), cycle_min := min c (cycle_min st), ave_cycle := ave_cycle st + c\<rparr>"
    by (cases st) (auto simp: note_cycle_def max_def min_def)
  with Cons show ?case by (simp add: add.assoc)
qed simp

definition reg_write :: "u64 \<times> u32" where
  "reg_write = (GPU_BAR0_PA + GPU_OFFSET, 0x1000)"

definition bar_pages :: "u64 list" where
  "bar_pages = frames GPU_BAR0_PA 4096"

text \<open>A write to the register through the mapping reaches the register.\<close>

lemma writel_reg:
  assumes "mapping s va = Some bar_pages"
  shows "os_writel 0x1000 va GPU_OFFSET s = Inr (s\<lparr>writes := writes s @ [reg_write]\<rparr>)"
proof -
  have len: "length bar_pages = 4096" by (simp add: bar_pages_def frames_def)
  have "bar_pages ! 0xbb0 = drop_bit 12 (GPU_BAR0_PA + of_nat 0xbb0 * 4096)"
    by (simp add: bar_pages_def frames_def)
  then have "bar_pages ! 0xbb0 * 4096 + 0x80 = GPU_BAR0_PA + GPU_OFFSET"
    by (simp add: GPU_BAR0_PA_def GPU_OFFSET_def)
  then show ?thesis using assms len by (simp add: os_writel_def GPU_OFFSET_def reg_write_def)
qed

lemma time_from_all:
  assumes "mapping s va = Some bar_pages" and "i \<le> TRY_TIMES"
  shows "time_from e va i st s =
    Inr (fold note_cycle (map (cur_cycle e) [i..<TRY_TIMES]) st,
      s\<lparr>writes := writes s @ replicate (TRY_TIMES - i) reg_write,
        klines := klines s @ map (\<lambda>j. unnormal_line j (cur_cycle e j)) (filter (\<lambda>j. cur_cycle e j > 400) [i..<TRY_TIMES])\<rparr>)"
  using assms
proof (induction "TRY_TIMES - i" arbitrary: i st s)
  case 0
  then show ?case by (simp add: time_from.simps [of e va TRY_TIMES])
next
  case (Suc n)
  then have i: "i < TRY_TIMES" by simp
  let ?c = "cur_cycle e i"
  define s1 where "s1 = s\<lparr>writes := writes s @ [reg_write]\<rparr>"
  define s2 where "s2 = (if ?c > 400 then s1\<lparr>klines := klines s1 @ [unnormal_line i ?c]\<rparr> else s1)"
  have "time_from e va i st s = time_from e va (Suc i) (note_cycle ?c st) s2"
    using i writel_reg [OF Suc.prems(1)] by (simp add: time_from.simps [of e va i] s2_def s1_def Let_def)
  also have "\<dots> = Inr (fold note_cycle (map (cur_cycle e) [Suc i..<TRY_TIMES]) (note_cycle ?c st),
      s2\<lparr>writes := writes s2 @ replicate (TRY_TIMES - Suc i) reg_write,
        klines := klines s2 @ map (\<lambda>j. unnormal_line j (cur_cycle e j)) (filter (\<lambda>j. cur_cycle e j > 400) [Suc i..<TRY_TIMES])\<rparr>)"
    by (rule Suc.hyps(1)) (use Suc i in \<open>auto simp: s2_def s1_def\<close>)
  also have "[i..<TRY_TIMES] = i # [Suc i..<TRY_TIMES]" using i by (simp add: upt_conv_Cons)
  moreover have "replicate (TRY_TIMES - i) reg_write = reg_write # replicate (TRY_TIMES - Suc i) reg_write"
    using i by (metis Suc_diff_Suc replicate_Suc)
  ultimately show ?case by (simp add: s2_def s1_def)
qed

lemma fold_extremes:
  fixes xs :: "u64 list"
  assumes "xs \<noteq> []"
  shows "fold max xs 0 = Max (set xs)" and "fold min xs b = min b (Min (set xs))"
proof -
  have "fold max xs 0 = Max (set (0 # xs))" by (rule Max.set_eq_fold [symmetric])
  then show "fold max xs 0 = Max (set xs)" using assms by (simp add: max.absorb2)
  have "fold min xs b = Min (set (b # xs))" by (rule Min.set_eq_fold [symmetric])
  then show "fold min xs b = min b (Min (set xs))" using assms by simp
qed

lemma cycles_nonempty: "cycles e \<noteq> []"
  by (simp add: cycles_def TRY_TIMES_def)

lemma vmap_bar:
  assumes "kmalloc_ret e \<noteq> 0" and "vmap_ret e \<noteq> 0"
  shows "\<exists>s1. qgpu_vmap_pfn e GPU_BAR0_PA GPU_MAP_LEN s = Inr (vmap_ret e, s1)
    \<and> mapping s1 = (mapping s)(vmap_ret e \<mapsto> bar_pages) \<and> held s1 = Vmap (vmap_ret e) # held s
    \<and> writes s1 = writes s \<and> klines s1 = klines s"
proof -
  have "unat (n_page GPU_MAP_LEN) = 4096" by (simp add: n_page_def GPU_MAP_LEN_def)
  moreover have "GPU_BAR0_PA - GPU_BAR0_PA mod 4096 = GPU_BAR0_PA" by (simp add: GPU_BAR0_PA_def)
  ultimately show ?thesis
    using assms
    by (simp add: qgpu_vmap_pfn_def Let_def release_ptr_def release_def acquire_def bar_pages_def pages_from_frames)
qed

text \<open>The rounds of the init function on a mapped window: the loop, the probe and the unmapping.\<close>

definition final_stats :: "ana_env \<Rightarrow> stats" where
  "final_stats e = \<lparr>cycle_max = Max (set (cycles e)), cycle_min = min 8000000 (Min (set (cycles e))),
     ave_cycle = sum_list (cycles e)\<rparr>"

definition slow_lines :: "ana_env \<Rightarrow> string list" where
  "slow_lines e = map (\<lambda>i. unnormal_line i (cur_cycle e i)) (filter (\<lambda>i. cur_cycle e i > 400) [0..<TRY_TIMES])"

lemma time_all:
  assumes "mapping s va = Some bar_pages"
  shows "time_from e va 0 \<lparr>cycle_max = 0, cycle_min = 8000000, ave_cycle = 0\<rparr> s =
    Inr (final_stats e, s\<lparr>writes := writes s @ replicate TRY_TIMES reg_write, klines := klines s @ slow_lines e\<rparr>)"
proof -
  have "fold note_cycle (cycles e) \<lparr>cycle_max = 0, cycle_min = 8000000, ave_cycle = 0\<rparr> = final_stats e"
    by (simp add: note_cycles fold_extremes cycles_nonempty final_stats_def)
  then show ?thesis unfolding time_from_all [OF assms le0] cycles_def [symmetric] by (simp add: slow_lines_def)
qed

lemma probe_reg:
  assumes "mapping s va = Some bar_pages"
  shows "is_mmio_tracing_by_hypervisor e va s =
    Inr (if snd (probe_cycles e) - fst (probe_cycles e) > 1000 then 1 else 0, s\<lparr>writes := writes s @ [reg_write]\<rparr>)"
  using assms by (simp add: is_mmio_tracing_by_hypervisor_def writel_reg Let_def MAX_MMIO_CYCLES_def)

lemma vunmap_bar:
  assumes "is_vmalloc_addr e va" and "held s = Vmap va # rest"
  shows "qgpu_vunmap e va s = Inr (s\<lparr>held := rest, mapping := (mapping s)(va := None)\<rparr>)"
  using assms by (simp add: qgpu_vunmap_def release_def)

lemma all_writes: "replicate TRY_TIMES reg_write @ [reg_write] = replicate 10001 (0xFCBB0080, 0x1000)"
  unfolding replicate_append_same
  by (simp add: TRY_TIMES_def reg_write_def GPU_BAR0_PA_def GPU_OFFSET_def flip: replicate_Suc)

section \<open>Properties\<close>

text \<open>C18. With the register window mapped, loading the module performs 10001 writes of 0x1000, all to the
  physical register \<open>GPU_BAR0_PA + GPU_OFFSET\<close>, reports the true maximum of the cycle counts, their minimum
  (capped at 8000000), and the average of their sum, lists exactly the writes that took more than 400
  cycles, tells whether the last write took more than 1000, unmaps the window and returns 0 with the
  ledger as it was.\<close>

theorem ana_mem_init_reports:
  assumes "kmalloc_ret e \<noteq> 0" and "vmap_ret e \<noteq> 0" and "ana_env_ok e s"
  shows "\<exists>s' header. ana_mem_init e s = Inr (0, s') \<and> held s' = held s
    \<and> writes s' = writes s @ replicate 10001 (0xFCBB0080, 0x1000)
    \<and> klines s' = klines s @ [header] @
        map (\<lambda>i. unnormal_line i (cur_cycle e i)) (filter (\<lambda>i. cur_cycle e i > 400) [0..<TRY_TIMES]) @
        [''=================print all WRITE statistic info=================='',
         report_line \<lparr>cycle_max = Max (set (cycles e)), cycle_min = min 8000000 (Min (set (cycles e))),
           ave_cycle = sum_list (cycles e)\<rparr>,
         if snd (probe_cycles e) - fst (probe_cycles e) > 1000 then ''*****mmio is tracing by hypervisor*****''
         else ''*****mmio is NOT tracing by hypervisor*****'']"
proof -
  obtain s1 where s1: "qgpu_vmap_pfn e GPU_BAR0_PA GPU_MAP_LEN s = Inr (vmap_ret e, s1)"
      "mapping s1 = (mapping s)(vmap_ret e \<mapsto> bar_pages)" "held s1 = Vmap (vmap_ret e) # held s"
      "writes s1 = writes s" "klines s1 = klines s"
    using vmap_bar [OF assms(1,2)] by blast
  have v: "is_vmalloc_addr e (vmap_ret e)" using assms(2,3) by (simp add: ana_env_ok_def)
  show ?thesis
    unfolding ana_mem_init_def s1(1) final_stats_def [symmetric] slow_lines_def [symmetric] all_writes [symmetric]
    using assms(2) s1(2-5) by (simp add: Let_def time_all probe_reg vunmap_bar [OF v])
qed

text \<open>C37. A window that starts at a page boundary is mapped completely and in order: byte \<open>k\<close> of the mapping is
  physical byte \<open>phys_addr + k\<close>, for every \<open>k\<close> below the size, for sizes of at most \<^term>\<open>(2::nat) ^ 32 - 1\<close> pages
  (just below 16 TiB), above which the loop over the pages does not end. A window that starts inside a page is mapped
  from the start of that page, so the address returned is not the address of its first byte.\<close>

theorem qgpu_vmap_pfn_covers:
  assumes "kmalloc_ret e \<noteq> 0" and "vmap_ret e \<noteq> 0" and "unat phys_addr + unat sz + 8192 < 2 ^ 64" and "k < unat sz"
    and "unat sz \<le> (2 ^ 32 - 1) * 4096"
  shows "\<exists>s1 pages. qgpu_vmap_pfn e phys_addr sz s = Inr (vmap_ret e, s1) \<and> mapping s1 (vmap_ret e) = Some pages
    \<and> held s1 = Vmap (vmap_ret e) # held s \<and> k div 4096 < length pages
    \<and> pages ! (k div 4096) * PAGE_SIZE + of_nat (k mod 4096) = phys_addr - phys_addr mod PAGE_SIZE + of_nat k"
proof -
  let ?p = "phys_addr - phys_addr mod 4096 :: u64"
  let ?n = "unat (n_page sz)"
  have pmod: "unat ?p = unat phys_addr - unat phys_addr mod 4096"
    using unat_sub [of "phys_addr mod 4096" phys_addr] by (simp add: word_le_nat_alt unat_mod_distrib)
  then have p: "unat ?p mod 4096 = 0" "unat ?p \<le> unat phys_addr" by (simp_all add: minus_mod_eq_div_mult)
  have n: "?n = (unat sz + 4095) div 4096"
  proof -
    have "unat (sz + 4096 - 1) = unat sz + 4095" using assms(3) by (simp add: unat_word_ariths)
    then show ?thesis unfolding n_page_def unat_div by simp
  qed
  then have k: "k div 4096 < ?n" using assms(4) by (simp add: less_eq_div_iff_mult_less_eq Suc_le_eq [symmetric])
  have "unat ?p + 4096 * Suc (k div 4096) \<le> 2 ^ 64" using p(2) assms(3,4) by simp
  from frame_of_page [OF p(1) this]
  have "frames ?p ?n ! (k div 4096) * 4096 = ?p + of_nat (4096 * (k div 4096))"
    using k by (simp add: frames_def)
  moreover have "of_nat (4096 * (k div 4096)) + of_nat (k mod 4096) = (of_nat k :: u64)"
    unfolding of_nat_add [symmetric] by simp
  ultimately have "frames ?p ?n ! (k div 4096) * 4096 + of_nat (k mod 4096) = ?p + of_nat k"
    by (simp only: add.assoc)
  moreover have "pages_from ?p 0 (n_page sz) = Some (frames ?p ?n)" "length (frames ?p ?n) = ?n"
    using n assms(5) pages_from_frames [of "n_page sz" ?p] by (simp_all add: frames_def)
  ultimately show ?thesis
    using assms(1,2) k
    by (simp add: qgpu_vmap_pfn_def Let_def release_ptr_def release_def acquire_def del: of_nat_add of_nat_mult)
qed

text \<open>From \<^term>\<open>(2::nat) ^ 32\<close> pages on the 32-bit counter wraps below the number of pages and the loop never ends.\<close>

lemma qgpu_vmap_pfn_diverges:
  assumes "kmalloc_ret e \<noteq> 0" and "2 ^ 32 \<le> unat (n_page sz)"
  shows "qgpu_vmap_pfn e phys_addr sz s = Inl Diverges"
proof -
  have "pages_from p 0 (n_page sz) = None" for p
    using pages_from_ends [of p 0 "n_page sz"] assms(2) by (cases "pages_from p 0 (n_page sz)") auto
  then show ?thesis using assms(1) by (simp add: qgpu_vmap_pfn_def looping_def)
qed

section \<open>Witnesses\<close>

theorem ana_mem_init_reports_witness:
  "\<exists>s'. ana_mem_init ana_env0 anamem0 = Inr (0, s') \<and> writes s' = replicate 10001 (0xFCBB0080, 0x1000) \<and> held s' = []"
proof -
  have "kmalloc_ret ana_env0 \<noteq> 0" "vmap_ret ana_env0 \<noteq> 0" "ana_env_ok ana_env0 anamem0"
    by (simp_all add: ana_env0_def ana_env_ok_def)
  from ana_mem_init_reports [OF this] show ?thesis by (auto simp: anamem0_def)
qed

theorem qgpu_vmap_pfn_covers_witness:
  "\<exists>s1 pages. qgpu_vmap_pfn ana_env0 0xFC000000 0x2000 anamem0 = Inr (0x2000, s1)
    \<and> mapping s1 0x2000 = Some pages \<and> pages ! 1 * PAGE_SIZE + of_nat 904 = 0xFC000000 + of_nat 5000"
  using qgpu_vmap_pfn_covers [of ana_env0 "0xFC000000" "0x2000" 5000 anamem0]
  by (auto simp: ana_env0_def)

end
