(* ===== verification/Anarounds.thy ===== *)
theory Anarounds
  imports Anamem
begin

text \<open>
  The two measuring rounds of \<^verbatim>\<open>src/code/ana_mem/anamem.c\<close> that are switched off by \<^verbatim>\<open>while (0)\<close> (lines 125 to 171
  and 173 to 217), and \<^verbatim>\<open>os_readl\<close>, which only the first one calls: a round of 10000 timed pairs of reads and a
  round of 10000 timed writes, each with statistics in cycles and in nanoseconds.
\<close>

section \<open>The rounds\<close>

text \<open>The register contents by physical address.\<close>

definition os_readl :: "(u64 \<Rightarrow> u32) \<Rightarrow> u64 \<Rightarrow> u64 \<Rightarrow> anamem \<Rightarrow> crash + u32" where
  "os_readl reg addr off s =
     (case mapping s addr of
        None \<Rightarrow> Inl Bad_access
      | Some pages \<Rightarrow>
          if unat off + 4 \<le> 4096 * length pages
          then Inr (reg (pages ! (unat off div 4096) * PAGE_SIZE + off mod PAGE_SIZE)) else Inl Bad_access)"

record round_stats = stats +
  tsc_max :: u64
  tsc_min :: u64
  ave_time :: u64

definition round_start :: round_stats where
  "round_start = \<lparr>cycle_max = 0, cycle_min = 8000000, ave_cycle = 0, tsc_max = 0, tsc_min = 800000000000, ave_time = 0\<rparr>"

text \<open>The readings around access \<open>i\<close>: the difference of the cycle counters and that of the clock in ns.\<close>

record clocks =
  tsc_diff :: "nat \<Rightarrow> u64"
  delta :: "nat \<Rightarrow> u64"

definition note_round :: "u64 \<Rightarrow> u64 \<Rightarrow> round_stats \<Rightarrow> round_stats" where
  "note_round tsc dlt st =
     st\<lparr>cycle_max := (if cycle_max st < tsc div 2 then tsc div 2 else cycle_max st),
        cycle_min := (if cycle_min st > tsc div 2 then tsc div 2 else cycle_min st),
        tsc_max := (if tsc_max st < dlt div 2 then dlt div 2 else tsc_max st),
        tsc_min := (if tsc_min st > dlt div 2 then dlt div 2 else tsc_min st),
        ave_time := ave_time st + dlt div 2,
        ave_cycle := ave_cycle st + tsc div 2\<rparr>"

definition times_text :: "string \<Rightarrow> round_stats \<Rightarrow> string" where
  "times_text what st = ''==='' @ what @ '' one mmio value in time max: '' @ lld (tsc_max st) @ '' ns, min: '' @ lld (tsc_min st) @
     '' ns, ave:'' @ lld (ave_time st div of_nat TRY_TIMES) @ '' ns, cycles max:'' @ lld (cycle_max st) @
     '', min:'' @ lld (cycle_min st) @ '', ave:'' @ lld (ave_cycle st div of_nat TRY_TIMES)"

definition readback :: "nat \<Rightarrow> u32 \<Rightarrow> u32 \<Rightarrow> string" where
  "readback i hi lo = ''Time:'' @ fmt_d (int i) @ '', readback high32:0x'' @ fmt_x 8 (unat hi) @ '', low32:0x'' @ fmt_x 8 (unat lo) @
     '', from 0x'' @ fmt_x 0 (unat GPU_OFFSET)"

definition slow_text :: "clocks \<Rightarrow> nat \<Rightarrow> string" where
  "slow_text ck i = '', cur time:'' @ lld (delta ck i div 2) @ '' ns, cur cycle:'' @ lld (tsc_diff ck i div 2)"

definition slow_read :: "clocks \<Rightarrow> nat \<Rightarrow> u32 \<times> u32 \<Rightarrow> string" where
  "slow_read ck i = (\<lambda>(reg_val, reg_val2). ''UNNORMAL READ '' @ readback i reg_val2 reg_val @ slow_text ck i)"

text \<open>The loop of the first round, from \<open>i\<close> on, with the values last read.\<close>

function read_from ::
  "(nat \<Rightarrow> u64 \<Rightarrow> u32) \<Rightarrow> clocks \<Rightarrow> u64 \<Rightarrow> nat \<Rightarrow> u32 \<times> u32 \<Rightarrow> round_stats \<Rightarrow> anamem \<Rightarrow> crash + (u32 \<times> u32) \<times> round_stats \<times> anamem" where
  "read_from reg ck bar0_va i v st s =
     (if i < TRY_TIMES then
        andThen (os_readl (reg i) bar0_va GPU_OFFSET s) (\<lambda>reg_val.
        andThen (os_readl (reg i) bar0_va (GPU_OFFSET + 4) s) (\<lambda>reg_val2.
          read_from reg ck bar0_va (Suc i) (reg_val, reg_val2) (note_round (tsc_diff ck i) (delta ck i) st)
            (if tsc_diff ck i > 200
             then s\<lparr>klines := klines s @ [slow_read ck i (reg_val, reg_val2)]\<rparr> else s)))
      else Inr (v, st, s))"
  by pat_completeness auto
termination
  by (relation "measure (\<lambda>(r, ck, b, i, v, st, s). TRY_TIMES - i)") auto

declare read_from.simps [simp del]

definition read_round :: "(nat \<Rightarrow> u64 \<Rightarrow> u32) \<Rightarrow> clocks \<Rightarrow> u64 \<Rightarrow> anamem \<Rightarrow> crash + anamem" where
  "read_round reg ck bar0_va s =
     andThen (read_from reg ck bar0_va 0 (0, 0) round_start s) (\<lambda>((reg_val, reg_val2), st, s1).
       Inr (s1\<lparr>klines := klines s1 @ [''=================print all READ statistic info=================='',
         ''==='' @ readback TRY_TIMES reg_val2 reg_val, times_text ''read'' st]\<rparr>))"

definition slow_write :: "clocks \<Rightarrow> nat \<Rightarrow> string" where
  "slow_write ck i = ''UNNORMAL WRITE Time:'' @ fmt_d (int i) @ '', to 0x'' @ fmt_x 0 (unat GPU_OFFSET) @ slow_text ck i"

text \<open>The loop of the second round.\<close>

function write_from :: "clocks \<Rightarrow> u64 \<Rightarrow> nat \<Rightarrow> round_stats \<Rightarrow> anamem \<Rightarrow> crash + round_stats \<times> anamem" where
  "write_from ck bar0_va i st s =
     (if i < TRY_TIMES then
        andThen (os_writel 0x1000 bar0_va GPU_OFFSET s) (\<lambda>s1.
          write_from ck bar0_va (Suc i) (note_round (tsc_diff ck i) (delta ck i) st)
            (if tsc_diff ck i > 200 then s1\<lparr>klines := klines s1 @ [slow_write ck i]\<rparr> else s1))
      else Inr (st, s))"
  by pat_completeness auto
termination
  by (relation "measure (\<lambda>(ck, b, i, st, s). TRY_TIMES - i)") auto

declare write_from.simps [simp del]

definition write_round :: "clocks \<Rightarrow> u64 \<Rightarrow> anamem \<Rightarrow> crash + anamem" where
  "write_round ck bar0_va s =
     andThen (write_from ck bar0_va 0 round_start s) (\<lambda>(st, s1).
       Inr (s1\<lparr>klines := klines s1 @ [''=================print all WRITE statistic info=================='',
         ''===Time:'' @ fmt_d (int TRY_TIMES) @ '', write to 0x'' @ fmt_x 0 (unat GPU_OFFSET), times_text ''write'' st]\<rparr>))"

section \<open>Specification\<close>

definition halves :: "(nat \<Rightarrow> u64) \<Rightarrow> u64 list" where
  "halves f = map (\<lambda>i. f i div 2) [0..<TRY_TIMES]"

text \<open>The true statistics of the halved readings.\<close>

definition true_stats :: "clocks \<Rightarrow> round_stats" where
  "true_stats ck =
     \<lparr>cycle_max = Max (set (halves (tsc_diff ck))), cycle_min = min 8000000 (Min (set (halves (tsc_diff ck)))),
      ave_cycle = sum_list (halves (tsc_diff ck)), tsc_max = Max (set (halves (delta ck))),
      tsc_min = min 800000000000 (Min (set (halves (delta ck)))), ave_time = sum_list (halves (delta ck))\<rparr>"

text \<open>What the pair of reads \<open>i\<close> finds.\<close>

definition registers :: "(nat \<Rightarrow> u64 \<Rightarrow> u32) \<Rightarrow> nat \<Rightarrow> u32 \<times> u32" where
  "registers reg i = (reg i 0xFCBB0080, reg i 0xFCBB0084)"

definition clocks0 :: clocks where
  "clocks0 = \<lparr>tsc_diff = \<lambda>_. 180, delta = \<lambda>_. 60\<rparr>"

section \<open>Lemmas\<close>

lemma if_max: "(if m < c then c else m) = max c (m :: u64)"
  by (auto simp: max_def)

lemma if_min: "(if m > c then c else m) = min c (m :: u64)"
  by (auto simp: min_def)

lemma note_rounds:
  "fold (\<lambda>i. note_round (f i) (g i)) is st =
     st\<lparr>cycle_max := fold max (map (\<lambda>i. f i div 2) is) (cycle_max st), cycle_min := fold min (map (\<lambda>i. f i div 2) is) (cycle_min st),
        ave_cycle := ave_cycle st + sum_list (map (\<lambda>i. f i div 2) is),
        tsc_max := fold max (map (\<lambda>i. g i div 2) is) (tsc_max st), tsc_min := fold min (map (\<lambda>i. g i div 2) is) (tsc_min st),
        ave_time := ave_time st + sum_list (map (\<lambda>i. g i div 2) is)\<rparr>"
proof (induction "is" arbitrary: st)
  case (Cons i "is")
  have "note_round (f i) (g i) st = st\<lparr>cycle_max := max (f i div 2) (cycle_max st), cycle_min := min (f i div 2) (cycle_min st),
      ave_cycle := ave_cycle st + f i div 2, tsc_max := max (g i div 2) (tsc_max st), tsc_min := min (g i div 2) (tsc_min st),
      ave_time := ave_time st + g i div 2\<rparr>"
    by (simp only: note_round_def if_max if_min) simp
  with Cons show ?case by (simp add: add.assoc)
qed simp

lemma round_true: "fold (\<lambda>i. note_round (tsc_diff ck i) (delta ck i)) [0..<TRY_TIMES] round_start = true_stats ck"
proof -
  have "halves f \<noteq> []" for f by (simp add: halves_def TRY_TIMES_def)
  then show ?thesis
    unfolding note_rounds halves_def [symmetric] by (simp add: round_start_def true_stats_def fold_extremes)
qed

text \<open>Reads through the mapping reach the two registers.\<close>

lemma readl_reg:
  assumes "mapping s va = Some bar_pages"
  shows "os_readl reg va GPU_OFFSET s = Inr (reg 0xFCBB0080)" "os_readl reg va (GPU_OFFSET + 4) s = Inr (reg 0xFCBB0084)"
proof -
  have len: "length bar_pages = 4096" by (simp add: bar_pages_def frames_def)
  have "bar_pages ! 0xbb0 = drop_bit 12 (GPU_BAR0_PA + of_nat 0xbb0 * 4096)"
    by (simp add: bar_pages_def frames_def)
  then have "bar_pages ! 0xbb0 * 4096 + 0x80 = 0xFCBB0080" "bar_pages ! 0xbb0 * 4096 + 0x84 = 0xFCBB0084"
    by (simp_all add: GPU_BAR0_PA_def)
  then show "os_readl reg va GPU_OFFSET s = Inr (reg 0xFCBB0080)" "os_readl reg va (GPU_OFFSET + 4) s = Inr (reg 0xFCBB0084)"
    using assms len by (simp_all add: os_readl_def GPU_OFFSET_def)
qed

lemma read_from_all:
  assumes "mapping s va = Some bar_pages" and "i \<le> TRY_TIMES"
  shows "\<exists>s'. read_from reg ck va i v st s =
      Inr (last (v # map (registers reg) [i..<TRY_TIMES]), fold (\<lambda>i. note_round (tsc_diff ck i) (delta ck i)) [i..<TRY_TIMES] st, s')
    \<and> writes s' = writes s
    \<and> klines s' = klines s @ map (\<lambda>j. slow_read ck j (registers reg j)) (filter (\<lambda>j. tsc_diff ck j > 200) [i..<TRY_TIMES])"
  using assms
proof (induction "TRY_TIMES - i" arbitrary: i v st s)
  case 0
  then show ?case by (simp add: read_from.simps [of reg ck va TRY_TIMES])
next
  case (Suc n)
  then have i: "i < TRY_TIMES" by simp
  define s1 where "s1 = (if tsc_diff ck i > 200 then s\<lparr>klines := klines s @ [slow_read ck i (registers reg i)]\<rparr> else s)"
  have step: "read_from reg ck va i v st s
      = read_from reg ck va (Suc i) (registers reg i) (note_round (tsc_diff ck i) (delta ck i) st) s1"
    using i readl_reg [OF Suc.prems(1)] by (simp add: read_from.simps [of reg ck va i] s1_def registers_def)
  have map: "mapping s1 va = Some bar_pages" using Suc.prems(1) by (simp add: s1_def)
  have "[i..<TRY_TIMES] = i # [Suc i..<TRY_TIMES]" using i by (simp add: upt_conv_Cons)
  then show ?case
    using Suc.hyps(1) [OF _ map, of "Suc i" "registers reg i" "note_round (tsc_diff ck i) (delta ck i) st"] Suc.hyps(2) i step
    by (cases "tsc_diff ck i > 200") (auto simp: s1_def)
qed

lemma write_from_all:
  assumes "mapping s va = Some bar_pages" and "i \<le> TRY_TIMES"
  shows "\<exists>s'. write_from ck va i st s = Inr (fold (\<lambda>i. note_round (tsc_diff ck i) (delta ck i)) [i..<TRY_TIMES] st, s')
    \<and> writes s' = writes s @ replicate (TRY_TIMES - i) reg_write
    \<and> klines s' = klines s @ map (slow_write ck) (filter (\<lambda>j. tsc_diff ck j > 200) [i..<TRY_TIMES])"
  using assms
proof (induction "TRY_TIMES - i" arbitrary: i st s)
  case 0
  then show ?case by (simp add: write_from.simps [of ck va TRY_TIMES])
next
  case (Suc n)
  then have i: "i < TRY_TIMES" by simp
  define s1 where "s1 = s\<lparr>writes := writes s @ [reg_write]\<rparr>"
  define s2 where "s2 = (if tsc_diff ck i > 200 then s1\<lparr>klines := klines s1 @ [slow_write ck i]\<rparr> else s1)"
  have step: "write_from ck va i st s = write_from ck va (Suc i) (note_round (tsc_diff ck i) (delta ck i) st) s2"
    using i writel_reg [OF Suc.prems(1)] by (simp add: write_from.simps [of ck va i] s1_def s2_def)
  have map: "mapping s2 va = Some bar_pages" using Suc.prems(1) by (simp add: s1_def s2_def)
  have "[i..<TRY_TIMES] = i # [Suc i..<TRY_TIMES]" using i by (simp add: upt_conv_Cons)
  moreover have "replicate (TRY_TIMES - i) reg_write = reg_write # replicate (TRY_TIMES - Suc i) reg_write"
    using i by (metis Suc_diff_Suc replicate_Suc)
  ultimately show ?case
    using Suc.hyps(1) [OF _ map, of "Suc i" "note_round (tsc_diff ck i) (delta ck i) st"] Suc.hyps(2) i step
    by (cases "tsc_diff ck i > 200") (auto simp: s1_def s2_def)
qed

section \<open>Properties\<close>

text \<open>The reading round reports the truth: it reads the two registers 10000 times without writing anything, lists
  exactly the pairs of reads that took more than 200 cycles, and prints the last values and the extremes
  and averages of half the time of each pair, that is of one read.\<close>

theorem read_round_reports:
  assumes "mapping s va = Some (frames GPU_BAR0_PA 4096)"
  shows "\<exists>s'. read_round reg ck va s = Inr s' \<and> writes s' = writes s
    \<and> klines s' = klines s
      @ map (\<lambda>j. slow_read ck j (reg j 0xFCBB0080, reg j 0xFCBB0084)) (filter (\<lambda>j. tsc_diff ck j > 200) [0..<TRY_TIMES])
      @ [''=================print all READ statistic info=================='',
         ''==='' @ readback TRY_TIMES (reg (TRY_TIMES - 1) 0xFCBB0084) (reg (TRY_TIMES - 1) 0xFCBB0080),
         times_text ''read'' (true_stats ck)]"
proof -
  have map: "mapping s va = Some bar_pages" using assms by (simp add: bar_pages_def)
  have upt: "[0..<TRY_TIMES] = [0..<TRY_TIMES - 1] @ [TRY_TIMES - 1]"
    using upt_Suc_append [of 0 "TRY_TIMES - 1"] by (simp add: TRY_TIMES_def del: upt_rec_numeral)
  have lst: "last ((0, 0) # map (registers reg) [0..<TRY_TIMES]) = (reg (TRY_TIMES - 1) 0xFCBB0080, reg (TRY_TIMES - 1) 0xFCBB0084)"
    unfolding upt by (simp add: registers_def)
  from read_from_all [OF map le0, of reg ck "(0, 0)" round_start]
  obtain s' where "read_from reg ck va 0 (0, 0) round_start s
      = Inr ((reg (TRY_TIMES - 1) 0xFCBB0080, reg (TRY_TIMES - 1) 0xFCBB0084), true_stats ck, s')" "writes s' = writes s"
    "klines s' = klines s @ map (\<lambda>j. slow_read ck j (registers reg j)) (filter (\<lambda>j. tsc_diff ck j > 200) [0..<TRY_TIMES])"
    unfolding lst round_true by blast
  then show ?thesis by (simp add: read_round_def registers_def)
qed

text \<open>The writing round times one write but divides its time by two: when every write takes \<open>c\<close> cycles, it reports
  \<open>c div 2\<close> as the cost of a write, while the round that runs (\<open>ana_mem_init_reports\<close>) reports \<open>c\<close>.\<close>

lemma write_round_reports:
  assumes "mapping s va = Some bar_pages"
  shows "\<exists>s'. write_round ck va s = Inr s' \<and> writes s' = writes s @ replicate TRY_TIMES reg_write
    \<and> last (klines s') = times_text ''write'' (true_stats ck)"
  using write_from_all [OF assms le0, of ck round_start] by (auto simp: write_round_def round_true)

lemma write_round_halves:
  assumes "mapping s va = Some bar_pages" and "\<forall>i. tsc_diff ck i = c" and "c < 8000000"
  shows "\<exists>s' st. write_round ck va s = Inr s' \<and> last (klines s') = times_text ''write'' st
    \<and> cycle_max st = c div 2 \<and> cycle_min st = c div 2"
proof -
  have "halves (tsc_diff ck) = replicate TRY_TIMES (c div 2)"
    using assms(2) by (simp add: halves_def map_replicate_const)
  then have "set (halves (tsc_diff ck)) = {c div 2}" by (simp add: TRY_TIMES_def set_replicate_conv_if)
  moreover have "c div 2 \<le> 8000000"
    using assms(3) by (simp add: word_le_nat_alt word_less_nat_alt unat_div)
  ultimately have "cycle_max (true_stats ck) = c div 2" "cycle_min (true_stats ck) = c div 2"
    by (simp_all add: true_stats_def min_def)
  then show ?thesis using write_round_reports [OF assms(1), of ck] by blast
qed

section \<open>Witnesses\<close>

theorem read_round_reports_witness:
  "\<exists>s'. read_round (\<lambda>_ a. of_nat (unat a)) clocks0 0x2000 (anamem0\<lparr>mapping := [0x2000 \<mapsto> frames GPU_BAR0_PA 4096]\<rparr>) = Inr s'
    \<and> writes s' = []"
  using read_round_reports [of "anamem0\<lparr>mapping := [0x2000 \<mapsto> frames GPU_BAR0_PA 4096]\<rparr>" "0x2000"
      "\<lambda>_ a. of_nat (unat a)" clocks0]
  by (auto simp: anamem0_def)

end
