(* ===== verification/Fileview.thy ===== *)
theory Fileview
  imports Cformat Dram
begin

text \<open>
  \<^verbatim>\<open>src/tools/fileview/fileview.cpp\<close>, the interactive viewer that reads the \<^verbatim>\<open>dram\<close> device (or any file): it
  keeps a position, fills a 256-byte buffer from the file, draws 16 lines in the chosen format and reacts
  to one key. A session is run on a list of key presses; it stops where the list ends (the program waits
  for a key) or at \<^verbatim>\<open>ESC\<close>. The file is an interface, the locale \<open>seekable\<close>, and the driver of \<open>Dram\<close> is
  shown to meet it. Where things are printed is the subject of \<open>Fileterm\<close>; the terminal settings are left
  out. The numbers are 64-bit in the source and stay far below 2 to the 62 for the files considered.
\<close>

section \<open>Constants\<close>

definition BUFWIDE :: int where "BUFWIDE = 16"
definition BUFSIZE :: int where "BUFSIZE = 256"
definition KB_SEEK :: int where "KB_SEEK = 0x0A"
definition KB_QUIT :: int where "KB_QUIT = 0x1B"
definition KB_BACK :: int where "KB_BACK = 0x7F"
definition KB_HOME :: int where "KB_HOME = 0x315B1B"
definition KB_LNUP :: int where "KB_LNUP = 0x415B1B"
definition KB_PGUP :: int where "KB_PGUP = 0x355B1B"
definition KB_LEFT :: int where "KB_LEFT = 0x445B1B"
definition KB_RGHT :: int where "KB_RGHT = 0x435B1B"
definition KB_LNDN :: int where "KB_LNDN = 0x425B1B"
definition KB_PGDN :: int where "KB_PGDN = 0x365B1B"
definition KB_END :: int where "KB_END = 0x345B1B"
definition KB_DEL :: int where "KB_DEL = 0x335B1B"

lemmas kb_defs = KB_SEEK_def KB_QUIT_def KB_BACK_def KB_HOME_def KB_LNUP_def KB_PGUP_def KB_LEFT_def
  KB_RGHT_def KB_LNDN_def KB_PGDN_def KB_END_def KB_DEL_def

definition incmin :: int where "incmin = 2 ^ 8"
definition incmax :: int where "incmax = 2 ^ 36"

definition posmax :: "int \<Rightarrow> int" where
  "posmax filesize = (let p = (filesize - 241) AND NOT 0xF in if p < 0 then 0 else p)"

section \<open>Filling the buffer\<close>

text \<open>The calls on the open file \<open>'f\<close>: \<^verbatim>\<open>lseek64\<close> and \<^verbatim>\<open>read\<close>, which returns a count and delivers bytes.\<close>

type_synonym 'f file_seek = "int \<Rightarrow> int \<Rightarrow> 'f \<Rightarrow> int \<times> 'f"
type_synonym 'f file_read = "nat \<Rightarrow> 'f \<Rightarrow> crash + int \<times> u8 list \<times> 'f"

text \<open>The inner \<^verbatim>\<open>while\<close>: bytes still to read, the buffer and the file.\<close>

function fill :: "'f file_read \<Rightarrow> int \<Rightarrow> u8 list \<Rightarrow> 'f \<Rightarrow> crash + int \<times> u8 list \<times> 'f" where
  "fill rd to_read buffer f =
     (if to_read > 0 then
        (case rd (nat to_read) f of
           Inl c \<Rightarrow> Inl c
         | Inr (nbytes, bs, f') \<Rightarrow>
             if nbytes \<le> 0 then Inr (to_read, buffer, f')
             else if length bs > nat to_read then Inl Bad_access
             else fill rd (to_read - nbytes) (buf_put buffer (nat (BUFSIZE - to_read)) bs) f')
      else Inr (to_read, buffer, f))"
  by pat_completeness auto
termination
  by (relation "measure (\<lambda>(rd, n, b, f). nat n)") auto

declare fill.simps [simp del]

section \<open>Drawing a line\<close>

definition hex_part :: "nat \<Rightarrow> u8 list \<Rightarrow> string" where
  "hex_part fmt row =
     (if fmt = 1 then concat (map (\<lambda>j. fmt_X 2 (unat (row ! j)) @ '' '') [0..<16])
      else if fmt = 2 then concat (map (\<lambda>j. '' '' @ fmt_X 4 (le_val (buf_get (2 * j) 2 row)) @ '' '') [0..<8])
      else if fmt = 4 then concat (map (\<lambda>j. ''  '' @ fmt_X 8 (le_val (buf_get (4 * j) 4 row)) @ ''  '') [0..<4])
      else if fmt = 8 then concat (map (\<lambda>j. ''    '' @ fmt_X 16 (le_val (buf_get (8 * j) 8 row)) @ ''    '') [0..<2])
      else if fmt = 16 then
        ''     '' @ ''   '' @ fmt_X 16 (le_val (buf_get 8 8 row)) @ fmt_X 16 (le_val (buf_get 0 8 row)) @ ''   '' @ ''     ''
      else '''')"

definition ascii_part :: "u8 list \<Rightarrow> string" where
  "ascii_part row = map (\<lambda>b. if b < 0x20 \<or> b > 0x7E then CHR ''.'' else char_of_byte b) row"

text \<open>The text \<^verbatim>\<open>sprintf\<close> builds in the 80 characters of \<^verbatim>\<open>outline\<close>; a longer one runs past them.\<close>

definition outline :: "nat \<Rightarrow> int \<Rightarrow> u8 list \<Rightarrow> crash + string" where
  "outline fmt location row =
     (let t = fmt_X 13 (unat (of_int location :: u64)) @ '' '' @ hex_part fmt row @ ascii_part row
      in if length t \<ge> 80 then Inl Bad_access else Inr t)"

fun draw :: "nat \<Rightarrow> int \<Rightarrow> u8 list \<Rightarrow> nat \<Rightarrow> nat \<Rightarrow> crash + string list" where
  "draw fmt location buffer i 0 = Inr []"
| "draw fmt location buffer i (Suc n) =
     andThen (outline fmt location (buf_get (16 * i) 16 buffer)) (\<lambda>l.
     andThen (draw fmt (location + BUFWIDE) buffer (Suc i) n) (\<lambda>ls. Inr (l # ls)))"

section \<open>Commands\<close>

record viewer =
  position :: int
  pageincr :: int
  format :: nat

text \<open>The address prompt: the text typed so far, and the keys; nothing when the keys end first.\<close>

fun read_addr :: "int list \<Rightarrow> string \<Rightarrow> (string \<times> int list) option" where
  "read_addr [] inbuf = (if 15 \<le> length inbuf then Some (inbuf, []) else None)"
| "read_addr (k # ks) inbuf =
     (if 15 \<le> length inbuf then Some (inbuf, k # ks)
      else
        let ch0 = k AND 0xFFFFFF
        in if ch0 = 0x0A then Some (inbuf, ks)
           else if ch0 = KB_QUIT then Some ('''', ks)
           else
             let ch = (if ch0 = KB_LEFT \<or> ch0 = KB_DEL then KB_BACK else ch0);
                 inbuf1 = (if ch = KB_BACK then butlast inbuf else inbuf)
             in if ch < 0x20 \<or> ch > 0x7E then read_addr ks inbuf1
                else read_addr ks (inbuf1 @ [char_of (nat ch)]))"

text \<open>\<^verbatim>\<open>strtoull(inbuf, NULL, 16)\<close>.\<close>

definition strtoull16 :: "string \<Rightarrow> u64" where
  "strtoull16 s =
     (let t = dropWhile isspace s;
          neg = (char_at t 0 = CHR ''-'');
          body = (if neg \<or> char_at t 0 = CHR ''+'' then drop 1 t else t);
          digits = (if char_at body 0 = CHR ''0'' \<and> tolower (char_at body 1) = CHR ''x'' \<and> is_digit 16 (char_at body 2)
                    then drop 2 body else body);
          n = parse_digits 16 0 digits
      in if n \<ge> 2 ^ 64 then - 1 else if neg then - of_nat n else of_nat n)"

text \<open>The bounds that the top of the loop puts on \<^verbatim>\<open>pageincr\<close> and its end on \<^verbatim>\<open>position\<close>.\<close>

definition bound_incr :: "int \<Rightarrow> int" where
  "bound_incr p = (if p = 0 then incmax else if p < incmin then incmin else if p > incmax then incmax else p)"

definition bound_pos :: "int \<Rightarrow> int \<Rightarrow> int" where
  "bound_pos filesize p =
     (let p1 = (if p < 0 then 0 else p) in if p1 > posmax filesize then posmax filesize else p1)"

text \<open>One key: whether to stop, the viewer, the keys left; nothing when the address prompt waits.\<close>

definition command :: "int \<Rightarrow> int \<Rightarrow> int list \<Rightarrow> viewer \<Rightarrow> (bool \<times> viewer \<times> int list) option" where
  "command filesize key ks v =
     (let inch = key AND 0xFFFFFF
      in if inch = 0x48 \<or> inch = 0x68 \<or> inch = KB_HOME then Some (False, v\<lparr>position := 0\<rparr>, ks)
         else if inch = 0x45 \<or> inch = 0x65 \<or> inch = KB_END then Some (False, v\<lparr>position := posmax filesize\<rparr>, ks)
         else if inch = KB_LNDN then Some (False, v\<lparr>position := position v + BUFWIDE\<rparr>, ks)
         else if inch = KB_LNUP then Some (False, v\<lparr>position := position v - BUFWIDE\<rparr>, ks)
         else if inch = KB_PGDN then Some (False, v\<lparr>position := position v + pageincr v\<rparr>, ks)
         else if inch = KB_PGUP then Some (False, v\<lparr>position := position v - pageincr v\<rparr>, ks)
         else if inch = KB_RGHT then Some (False, v\<lparr>pageincr := drop_bit 4 (pageincr v)\<rparr>, ks)
         else if inch = KB_LEFT then Some (False, v\<lparr>pageincr := push_bit 4 (pageincr v)\<rparr>, ks)
         else if inch = 0x42 \<or> inch = 0x62 then Some (False, v\<lparr>format := 1\<rparr>, ks)
         else if inch = 0x57 \<or> inch = 0x77 then Some (False, v\<lparr>format := 2\<rparr>, ks)
         else if inch = 0x44 \<or> inch = 0x64 then Some (False, v\<lparr>format := 4\<rparr>, ks)
         else if inch = 0x51 \<or> inch = 0x71 then Some (False, v\<lparr>format := 8\<rparr>, ks)
         else if inch = 0x4F \<or> inch = 0x6F then Some (False, v\<lparr>format := 16\<rparr>, ks)
         else if inch = KB_SEEK then
           (case read_addr ks '''' of
              None \<Rightarrow> None
            | Some (inbuf, ks') \<Rightarrow> Some (False, v\<lparr>position := sint (strtoull16 inbuf) AND NOT 0xF\<rparr>, ks'))
         else if inch = KB_QUIT then Some (True, v, ks)
         else Some (False, v, ks))"

text \<open>One turn of the main loop up to the key press: the lines of the screen.\<close>

definition show_screen ::
  "'f file_seek \<Rightarrow> 'f file_read \<Rightarrow> viewer \<Rightarrow> 'f \<Rightarrow> crash + string list \<times> 'f" where
  "show_screen sk rd v f =
     (let (location, f1) = sk (position v) 0 f
      in andThen (fill rd BUFSIZE (replicate 256 0xFF) f1) (\<lambda>(to_read, buffer, f2).
         andThen (draw (format v) location buffer 0 16) (\<lambda>ls. Inr (ls, f2))))"

lemma read_addr_shorter: "read_addr ks s = Some (t, ks') \<Longrightarrow> length ks' \<le> length ks"
proof (induction ks arbitrary: s)
  case (Cons k ks)
  then show ?case
    by (auto simp: Let_def split: if_splits dest!: Cons.IH)
qed (auto split: if_splits)

lemma command_shorter: "command fs k ks v = Some (d, v', ks') \<Longrightarrow> length ks' \<le> length ks"
  by (auto simp: command_def Let_def split: if_splits option.splits dest: read_addr_shorter)

text \<open>The main loop on a list of keys: the screens drawn, in order.\<close>

function navigate ::
  "'f file_seek \<Rightarrow> 'f file_read \<Rightarrow> int \<Rightarrow> int list \<Rightarrow> viewer \<Rightarrow> 'f \<Rightarrow> crash + string list list" where
  "navigate sk rd filesize keys v f =
     (let v1 = v\<lparr>pageincr := bound_incr (pageincr v)\<rparr>
      in case show_screen sk rd v1 f of
           Inl c \<Rightarrow> Inl c
         | Inr (ls, f1) \<Rightarrow>
             (case keys of
                [] \<Rightarrow> Inr [ls]
              | k # ks \<Rightarrow>
                  (case command filesize k ks v1 of
                     None \<Rightarrow> Inr [ls]
                   | Some (done, v2, ks') \<Rightarrow>
                       if done then Inr [ls]
                       else andThen (navigate sk rd filesize ks' (v2\<lparr>position := bound_pos filesize (position v2)\<rparr>) f1)
                              (\<lambda>rest. Inr (ls # rest)))))"
  by pat_completeness auto
termination
  by (relation "measure (\<lambda>(sk, rd, fs, keys, v, f). length keys)") (auto dest!: command_shorter)

declare navigate.simps [simp del]

text \<open>\<^verbatim>\<open>main\<close> after the file is open: exit status 1 when the end cannot be found, else the screens.\<close>

definition view_file :: "'f file_seek \<Rightarrow> 'f file_read \<Rightarrow> int list \<Rightarrow> 'f \<Rightarrow> crash + int \<times> string list list" where
  "view_file sk rd keys f =
     (let (filesize, f1) = sk 0 2 f
      in if filesize < 0 then Inr (1, [])
         else andThen (navigate sk rd filesize keys \<lparr>position = 0, pageincr = incmin, format = 1\<rparr> f1)
                (\<lambda>screens. Inr (0, screens)))"

text \<open>\<^verbatim>\<open>main\<close>: without an argument, or when the file (its name cut to \<^verbatim>\<open>MAXNAME\<close> characters) cannot be
  opened, exit status 1.\<close>

definition MAXNAME :: nat where "MAXNAME = 80"

definition fileview_main ::
  "'f file_seek \<Rightarrow> 'f file_read \<Rightarrow> (string \<Rightarrow> 'f option) \<Rightarrow> string list \<Rightarrow> int list \<Rightarrow> crash + int \<times> string list list" where
  "fileview_main sk rd open_file argv keys =
     (if length argv \<le> 1 then Inr (1, [])
      else
        let filename = take MAXNAME (argv ! 1)
        in case open_file filename of
             None \<Rightarrow> Inr (1, [])
           | Some f \<Rightarrow> view_file sk rd keys f)"

section \<open>What the viewer shows\<close>

text \<open>The text of a line, and the 16 lines of the screen at a position over a window of 256 bytes.\<close>

definition line_text :: "nat \<Rightarrow> int \<Rightarrow> u8 list \<Rightarrow> string" where
  "line_text fmt location row = fmt_X 13 (nat location) @ '' '' @ hex_part fmt row @ ascii_part row"

definition screen :: "nat \<Rightarrow> int \<Rightarrow> u8 list \<Rightarrow> string list" where
  "screen fmt p window = map (\<lambda>i. line_text fmt (p + 16 * int i) (buf_get (16 * i) 16 window)) [0..<16]"

text \<open>The navigation alone, without a file: the formats and positions a list of keys leads through.\<close>

function visited :: "int \<Rightarrow> int list \<Rightarrow> viewer \<Rightarrow> (nat \<times> int) list" where
  "visited filesize keys v =
     (let v1 = v\<lparr>pageincr := bound_incr (pageincr v)\<rparr>; here = (format v, position v)
      in case keys of
           [] \<Rightarrow> [here]
         | k # ks \<Rightarrow>
             (case command filesize k ks v1 of
                None \<Rightarrow> [here]
              | Some (done, v2, ks') \<Rightarrow>
                  if done then [here]
                  else here # visited filesize ks' (v2\<lparr>position := bound_pos filesize (position v2)\<rparr>)))"
  by pat_completeness auto
termination
  by (relation "measure (\<lambda>(fs, keys, v). length keys)") (auto dest!: command_shorter)

declare visited.simps [simp del]

text \<open>What every turn keeps: the position is a multiple of 16 inside the file's range, the format is one of
  the five, and the page increment is a power of 16.\<close>

definition viewer_ok :: "int \<Rightarrow> viewer \<Rightarrow> bool" where
  "viewer_ok filesize v \<longleftrightarrow> 0 \<le> position v \<and> position v \<le> posmax filesize \<and> 16 dvd position v \<and>
     format v \<in> {1, 2, 4, 8, 16} \<and> (\<exists>k \<in> {1..10}. pageincr v = 16 ^ k)"

section \<open>Lemmas on the navigation\<close>

lemma align16: "16 dvd ((x :: int) AND NOT 0xF)" "x - 15 \<le> x AND NOT 0xF" "x AND NOT 0xF \<le> x"
proof -
  have mask: "(0xF :: int) = mask 4" by (simp add: mask_eq_exp_minus_1)
  have "x AND NOT (mask 4) = x - take_bit 4 x"
  proof -
    have "x AND NOT (mask 4) = push_bit 4 (drop_bit 4 x)"
      by (rule bit_eqI) (auto simp: bit_simps)
    then show ?thesis by (metis add_diff_cancel_right' bits_ident)
  qed
  then have eq: "x AND NOT 0xF = x - x mod 16" unfolding mask by (simp add: take_bit_eq_mod)
  show "16 dvd (x AND NOT 0xF)" unfolding eq by (simp add: minus_mod_eq_div_mult)
  have "0 \<le> x mod 16" "x mod 16 \<le> 15" by simp_all
  then show "x - 15 \<le> x AND NOT 0xF" "x AND NOT 0xF \<le> x" unfolding eq by simp_all
qed

lemma posmax_ok: "0 \<le> posmax fs" "16 dvd posmax fs" "posmax fs = 0 \<or> posmax fs + 241 \<le> fs"
  using align16 [of "fs - 241"] by (auto simp: posmax_def Let_def)

lemma bound_pos_ok: "16 dvd p \<Longrightarrow> 0 \<le> bound_pos fs p \<and> bound_pos fs p \<le> posmax fs \<and> 16 dvd bound_pos fs p"
  using posmax_ok [of fs] by (auto simp: bound_pos_def Let_def)

lemma bound_incr_ok:
  assumes "k \<in> {1..10}"
  shows "\<exists>j \<in> {2..9}. bound_incr (16 ^ k) = 16 ^ j"
proof -
  have "k = 1 \<or> k = 10 \<or> k \<in> {2..9}" using assms by auto
  then consider "k = 1" | "k = 10" | "k \<in> {2..9}" by blast
  then show ?thesis
  proof cases
    case 1
    then show ?thesis by (intro bexI [of _ 2]) (simp_all add: bound_incr_def incmin_def)
  next
    case 2
    then show ?thesis by (intro bexI [of _ 9]) (simp_all add: bound_incr_def incmin_def incmax_def)
  next
    case 3
    then have "(16::int) ^ 2 \<le> 16 ^ k" "(16::int) ^ k \<le> 16 ^ 9" by (intro power_increasing; simp)+
    then show ?thesis using 3 by (intro bexI [of _ k]) (simp_all add: bound_incr_def incmin_def incmax_def)
  qed
qed

lemma viewer_start_ok: "viewer_ok fs \<lparr>position = 0, pageincr = incmin, format = 1\<rparr>"
  by (auto simp: viewer_ok_def posmax_ok incmin_def intro!: bexI [of _ 2])

text \<open>A command, run with the increment in bounds, keeps the invariant after the position is bounded.\<close>

lemma command_ok:
  assumes "viewer_ok fs v" and "j \<in> {2..9}" and "pageincr v = 16 ^ j"
    and "command fs k ks v = Some (stop, v2, ks')"
  shows "viewer_ok fs (v2\<lparr>position := bound_pos fs (position v2)\<rparr>)"
proof -
  have fmt: "format v2 \<in> {1, 2, 4, 8, 16}"
    using assms(1,4) by (auto simp: command_def viewer_ok_def Let_def split: if_splits option.splits)
  have "16 dvd pageincr v" using assms(2,3) by (simp add: dvd_power)
  then have pos: "16 dvd position v2"
    using assms(1,4) align16(1) posmax_ok(2)
    by (auto simp: command_def viewer_ok_def Let_def BUFWIDE_def split: if_splits option.splits)
  have "pageincr v2 = pageincr v \<or> pageincr v2 = drop_bit 4 (pageincr v) \<or> pageincr v2 = push_bit 4 (pageincr v)"
    using assms(4) by (auto simp: command_def Let_def split: if_splits option.splits)
  moreover have "drop_bit 4 (16 ^ j) = (16 :: int) ^ (j - 1)" "push_bit 4 (16 ^ j) = (16 :: int) ^ (j + 1)"
    using assms(2) by (simp_all add: drop_bit_eq_div push_bit_eq_mult power_diff)
  ultimately have "pageincr v2 = 16 ^ j \<or> pageincr v2 = 16 ^ (j - 1) \<or> pageincr v2 = 16 ^ (j + 1)"
    using assms(3) by simp
  moreover have "j \<in> {1..10}" "j - 1 \<in> {1..10}" "j + 1 \<in> {1..10}" using assms(2) by auto
  ultimately have "\<exists>i \<in> {1..10}. pageincr v2 = 16 ^ i" by blast
  with fmt bound_pos_ok [OF pos] show ?thesis by (auto simp: viewer_ok_def)
qed

lemma bounded_viewer:
  assumes "viewer_ok fs v"
  obtains j where "j \<in> {2..9}" and "pageincr (v\<lparr>pageincr := bound_incr (pageincr v)\<rparr>) = 16 ^ j"
    and "viewer_ok fs (v\<lparr>pageincr := bound_incr (pageincr v)\<rparr>)"
proof -
  obtain k where k: "k \<in> {1..10}" "pageincr v = 16 ^ k" using assms unfolding viewer_ok_def by blast
  obtain j where j: "j \<in> {2..9}" "bound_incr (16 ^ k) = 16 ^ j" using bound_incr_ok [OF k(1)] by blast
  moreover have "j \<in> {1..10}" using j(1) by auto
  ultimately show ?thesis using that [of j] assms k by (auto simp: viewer_ok_def)
qed

text \<open>Every position the navigation leads through is in range.\<close>

lemma visited_ok: "viewer_ok fs v \<Longrightarrow> (fmt, p) \<in> set (visited fs keys v) \<Longrightarrow>
    0 \<le> p \<and> p \<le> posmax fs \<and> 16 dvd p \<and> fmt \<in> {1, 2, 4, 8, 16}"
proof (induction fs keys v rule: visited.induct)
  case (1 fs keys v)
  let ?v1 = "v\<lparr>pageincr := bound_incr (pageincr v)\<rparr>"
  have here: "(fmt, p) = (format v, position v) \<Longrightarrow> ?case" using 1(2) by (auto simp: viewer_ok_def)
  obtain j where j: "j \<in> {2..9}" and v1: "pageincr ?v1 = 16 ^ j" "viewer_ok fs ?v1"
    using bounded_viewer [OF 1(2)] by blast
  show ?case
  proof (cases "(fmt, p) = (format v, position v)")
    case False
    then obtain k ks v2 ks' where c: "keys = k # ks" "command fs k ks ?v1 = Some (False, v2, ks')"
        "(fmt, p) \<in> set (visited fs ks' (v2\<lparr>position := bound_pos fs (position v2)\<rparr>))"
      using 1(3) by (subst (asm) visited.simps) (auto simp: Let_def split: list.splits option.splits if_splits)
    show ?thesis
      using 1(1) [OF refl refl c(1) c(2) refl refl] command_ok [OF v1(2) j v1(1) c(2)] c(3) by simp
  qed (rule here)
qed

section \<open>Lemmas on the drawing\<close>

lemma length_concat_const: "(\<And>x. x \<in> set xs \<Longrightarrow> length (f x) = c) \<Longrightarrow> length (concat (map f xs)) = length xs * c"
  by (induction xs) auto

lemma le_val_row: "off + n \<le> length row \<Longrightarrow> le_val (buf_get off n row) < 16 ^ (2 * n)"
  using le_val_less [of "buf_get off n row"] by (simp add: buf_simps power_mult)

text \<open>All five formats are 48 characters wide.\<close>

lemma length_hex_part:
  assumes "length row = 16" and "fmt \<in> {1, 2, 4, 8, 16}"
  shows "length (hex_part fmt row) = 48"
proof -
  have b: "length (fmt_X 2 (unat (x :: u8))) = 2" for x
    using unsigned_less [of x] by (intro length_fmt_X) simp_all
  have w: "length (fmt_X (2 * n) (le_val (buf_get off n row))) = 2 * n" if "off + n \<le> 16" "0 < n" for off n
    using le_val_row [of off n row] assms(1) that by (intro length_fmt_X) simp_all
  from assms(2) consider "fmt = 1" | "fmt = 2" | "fmt = 4" | "fmt = 8" | "fmt = 16" by blast
  then show ?thesis
  proof cases
    case 1
    then show ?thesis using length_concat_const [of "[0..<16]" "\<lambda>j. fmt_X 2 (unat (row ! j)) @ '' ''" 3] b
      by (simp add: hex_part_def)
  next
    case 2
    then show ?thesis
      using length_concat_const [of "[0..<8]" "\<lambda>j. '' '' @ fmt_X 4 (le_val (buf_get (2 * j) 2 row)) @ '' ''" 6] w [of _ 2]
      by (simp add: hex_part_def)
  next
    case 3
    then show ?thesis
      using length_concat_const [of "[0..<4]" "\<lambda>j. ''  '' @ fmt_X 8 (le_val (buf_get (4 * j) 4 row)) @ ''  ''" 12] w [of _ 4]
      by (simp add: hex_part_def)
  next
    case 4
    then show ?thesis
      using length_concat_const [of "[0..<2]" "\<lambda>j. ''    '' @ fmt_X 16 (le_val (buf_get (8 * j) 8 row)) @ ''    ''" 24] w [of _ 8]
      by (simp add: hex_part_def)
  next
    case 5
    then show ?thesis using w [of 0 8] w [of 8 8] by (simp add: hex_part_def)
  qed
qed

lemma outline_fits:
  assumes "0 \<le> location" and "location < 16 ^ 13" and "length row = 16" and "fmt \<in> {1, 2, 4, 8, 16}"
  shows "outline fmt location row = Inr (line_text fmt location row)"
proof -
  have "location < 2 ^ 64" using assms(2) by simp
  then have loc: "unat (of_int location :: u64) = nat location"
    using assms(1) by (simp add: unat_eq_nat_uint unsigned_of_int take_bit_int_eq_self)
  have "length (fmt_X 13 (nat location)) = 13" using assms(1,2) by (intro length_fmt_X) (simp_all add: nat_less_iff)
  then show ?thesis
    using length_hex_part [OF assms(3,4)] assms(3) by (simp add: outline_def Let_def loc line_text_def ascii_part_def)
qed

lemma draw_lines:
  assumes "0 \<le> location" and "location + 16 * int n < 16 ^ 13" and "16 * (i + n) \<le> length buffer"
    and "fmt \<in> {1, 2, 4, 8, 16}"
  shows "draw fmt location buffer i n =
    Inr (map (\<lambda>m. line_text fmt (location + 16 * int m) (buf_get (16 * (i + m)) 16 buffer)) [0..<n])"
  using assms
proof (induction n arbitrary: location i)
  case (Suc n)
  have "length (buf_get (16 * i) 16 buffer) = 16" using Suc.prems(3) by (simp add: buf_simps)
  then have "outline fmt location (buf_get (16 * i) 16 buffer) = Inr (line_text fmt location (buf_get (16 * i) 16 buffer))"
    using Suc.prems by (intro outline_fits) auto
  moreover have "draw fmt (location + 16) buffer (Suc i) n =
      Inr (map (\<lambda>m. line_text fmt (location + 16 + 16 * int m) (buf_get (16 * (Suc i + m)) 16 buffer)) [0..<n])"
    using Suc.prems by (intro Suc.IH) auto
  moreover have "[0..<Suc n] = 0 # map Suc [0..<n]" by (simp add: map_Suc_upt upt_conv_Cons)
  ultimately show ?case by (simp add: BUFWIDE_def o_def algebra_simps)
qed simp

lemma draw_screen:
  assumes "0 \<le> p" and "p + 256 < 16 ^ 13" and "length window = 256" and "fmt \<in> {1, 2, 4, 8, 16}"
  shows "draw fmt p window 0 16 = Inr (screen fmt p window)"
  using draw_lines [of p 16 0 window fmt] assms by (simp add: screen_def)

section \<open>The file interface\<close>

text \<open>A file of \<open>fsize\<close> bytes whose data is readable up to \<open>extent\<close>: a seek moves to a position inside it, a
  read that starts below the size delivers some bytes from the position on, and goes past the size only
  when it delivers everything asked for or everything there is; at or past the size a read delivers
  nothing. (For a regular file \<open>extent\<close> is the size.)\<close>

locale seekable =
  fixes sk :: "'f file_seek" and rd :: "'f file_read" and byte_at :: "nat \<Rightarrow> u8"
    and fsize :: int and extent :: int and pos :: "'f \<Rightarrow> int" and ok :: "'f \<Rightarrow> bool"
  assumes sizes: "0 < fsize" "fsize \<le> extent" "extent + 512 < 16 ^ 13"
    and seek_end: "ok f \<Longrightarrow> \<exists>f'. sk 0 2 f = (fsize, f') \<and> ok f'"
    and seek_set: "ok f \<Longrightarrow> 0 \<le> p \<Longrightarrow> p \<le> fsize \<Longrightarrow> \<exists>f'. sk p 0 f = (p, f') \<and> ok f' \<and> pos f' = p"
    and read_some: "ok f \<Longrightarrow> 0 < n \<Longrightarrow> n \<le> 256 \<Longrightarrow> 0 \<le> pos f \<Longrightarrow> pos f < fsize \<Longrightarrow>
      \<exists>k f'. 0 < k \<and> k \<le> n \<and> rd n f = Inr (int k, map (\<lambda>i. byte_at (nat (pos f) + i)) [0..<k], f') \<and> ok f'
        \<and> pos f' = pos f + int k \<and> (pos f' < fsize \<or> pos f' = min (pos f + int n) extent)"
    and read_eof: "ok f \<Longrightarrow> 0 < n \<Longrightarrow> n \<le> 256 \<Longrightarrow> fsize \<le> pos f \<Longrightarrow> rd n f = Inr (0, [], f)"
begin

text \<open>The 256 bytes the buffer holds for a position: data up to the extent, the fill byte after it.\<close>

definition window :: "int \<Rightarrow> int \<Rightarrow> u8 list" where
  "window p e = map (\<lambda>i. if p + int i < e then byte_at (nat p + i) else 0xFF) [0..<256]"

lemma window_step:
  assumes "0 \<le> p" and "p \<le> q" and "q + int k \<le> p + 256"
  shows "buf_put (window p q) (nat (q - p)) (map (\<lambda>i. byte_at (nat q + i)) [0..<k]) = window p (q + int k)"
proof (rule nth_equalityI)
  have fits: "nat (q - p) + k \<le> 256" using assms by simp
  then show "length (buf_put (window p q) (nat (q - p)) (map (\<lambda>i. byte_at (nat q + i)) [0..<k])) = length (window p (q + int k))"
    by (simp add: buf_simps window_def)
  fix i assume "i < length (buf_put (window p q) (nat (q - p)) (map (\<lambda>i. byte_at (nat q + i)) [0..<k]))"
  then have i: "i < 256" using fits by (simp add: buf_simps window_def)
  have "nat q + (i - nat (q - p)) = nat p + i" if "nat (q - p) \<le> i" using that assms by (simp add: nat_diff_distrib)
  then show "buf_put (window p q) (nat (q - p)) (map (\<lambda>i. byte_at (nat q + i)) [0..<k]) ! i = window p (q + int k) ! i"
    using i fits assms by (auto simp: nth_buf_put window_def)
qed

lemma fill_window:
  assumes "ok f" and "0 \<le> p" and "p \<le> pos f" and "pos f \<le> p + 256" and "p < fsize"
    and "pos f < fsize \<or> pos f = min (p + 256) extent"
  shows "\<exists>n f'. fill rd (p + 256 - pos f) (window p (pos f)) f = Inr (n, window p (min (p + 256) extent), f') \<and> ok f'"
  using assms
proof (induction "nat (p + 256 - pos f)" arbitrary: f rule: less_induct)
  case less
  let ?n = "nat (p + 256 - pos f)"
  show ?case
  proof (cases "pos f < p + 256 \<and> pos f < fsize")
    case False
    then have at: "pos f = p + 256 \<or> fsize \<le> pos f" using less.prems(4) by linarith
    then have e: "window p (pos f) = window p (min (p + 256) extent)" if "pos f < p + 256"
      using that less.prems(6) by auto
    show ?thesis
    proof (cases "pos f < p + 256")
      case True
      then have "fsize \<le> pos f" using at by simp
      then have "rd ?n f = Inr (0, [], f)" using True less.prems by (intro read_eof) auto
      then show ?thesis using True e less.prems(1) by (simp add: fill.simps)
    next
      case False
      then have "pos f = p + 256" using less.prems(4) by simp
      moreover have "window p (p + 256) = window p (min (p + 256) extent)"
        using less.prems(6) \<open>pos f = p + 256\<close> sizes by (auto simp: window_def)
      ultimately show ?thesis using less.prems(1) by (simp add: fill.simps)
    qed
  next
    case True
    then have n: "0 < ?n" "?n \<le> 256" using less.prems by auto
    obtain k f' where k: "0 < k" "k \<le> ?n" "rd ?n f = Inr (int k, map (\<lambda>i. byte_at (nat (pos f) + i)) [0..<k], f')"
        "ok f'" "pos f' = pos f + int k" "pos f' < fsize \<or> pos f' = min (pos f + int ?n) extent"
      using read_some [OF less.prems(1) n] less.prems True by fastforce
    have k': "pos f + int k \<le> p + 256" using k(2) True by linarith
    have upd: "buf_put (window p (pos f)) (nat (pos f - p)) (map (\<lambda>i. byte_at (nat (pos f) + i)) [0..<k]) = window p (pos f')"
      unfolding k(5) by (rule window_step) (use less.prems k' in auto)
    have "fill rd (p + 256 - pos f) (window p (pos f)) f = fill rd (p + 256 - pos f') (window p (pos f')) f'"
      using True k upd by (simp add: fill.simps [of rd "p + 256 - pos f"] BUFSIZE_def algebra_simps)
    moreover have "\<exists>n f''. fill rd (p + 256 - pos f') (window p (pos f')) f' = Inr (n, window p (min (p + 256) extent), f'') \<and> ok f''"
      by (rule less.hyps) (use k k' True less.prems in auto)
    ultimately show ?thesis by simp
  qed
qed

lemma show_screen_window:
  assumes "ok f" and "0 \<le> position v" and "position v < fsize" and "format v \<in> {1, 2, 4, 8, 16}"
  shows "\<exists>f'. show_screen sk rd v f =
    Inr (screen (format v) (position v) (window (position v) (min (position v + 256) extent)), f') \<and> ok f'"
proof -
  let ?p = "position v"
  obtain f1 where f1: "sk ?p 0 f = (?p, f1)" "ok f1" "pos f1 = ?p" using seek_set [OF assms(1,2)] assms(3) by auto
  have "replicate 256 0xFF = window ?p ?p" by (rule nth_equalityI) (simp_all add: window_def)
  then obtain n f2 where "fill rd BUFSIZE (replicate 256 0xFF) f1 = Inr (n, window ?p (min (?p + 256) extent), f2)" "ok f2"
    using fill_window [OF f1(2) assms(2)] f1(3) assms(3) by (auto simp: BUFSIZE_def)
  moreover have "draw (format v) ?p (window ?p (min (?p + 256) extent)) 0 16 =
      Inr (screen (format v) ?p (window ?p (min (?p + 256) extent)))"
    using assms sizes by (intro draw_screen) (auto simp: window_def)
  ultimately show ?thesis using f1(1) by (simp add: show_screen_def)
qed

text \<open>The whole session refines the navigation: every screen is the window of its position.\<close>

lemma navigate_visited:
  assumes "viewer_ok fsize v" and "ok f"
  shows "navigate sk rd fsize keys v f =
    Inr (map (\<lambda>(fmt, p). screen fmt p (window p (min (p + 256) extent))) (visited fsize keys v))"
  using assms
proof (induction "length keys" arbitrary: keys v f rule: less_induct)
  case less
  let ?v1 = "v\<lparr>pageincr := bound_incr (pageincr v)\<rparr>"
  obtain j where j: "j \<in> {2..9}" and v1: "pageincr ?v1 = 16 ^ j" "viewer_ok fsize ?v1"
    using bounded_viewer [OF less.prems(1)] by blast
  have range: "0 \<le> position ?v1" "position ?v1 < fsize" "format ?v1 \<in> {1, 2, 4, 8, 16}"
    using v1(2) posmax_ok(3) [of fsize] sizes unfolding viewer_ok_def by auto
  let ?s = "screen (format v) (position v) (window (position v) (min (position v + 256) extent))"
  obtain f1 where f1: "show_screen sk rd ?v1 f = Inr (?s, f1)" "ok f1"
    using show_screen_window [OF less.prems(2) range] by auto
  show ?case
  proof (cases keys)
    case Nil
    then show ?thesis using f1 by (simp add: navigate.simps visited.simps [of fsize "[]"] Let_def)
  next
    case (Cons k ks)
    show ?thesis
    proof (cases "command fsize k ks ?v1")
      case None
      then show ?thesis using f1 Cons
        by (simp add: navigate.simps [of sk rd fsize "k # ks"] visited.simps [of fsize "k # ks"] Let_def)
    next
      case (Some r)
      obtain stop v2 ks' where r: "r = (stop, v2, ks')" by (cases r)
      let ?v2 = "v2\<lparr>position := bound_pos fsize (position v2)\<rparr>"
      note c = Some [unfolded r]
      have "length ks' < length keys" using command_shorter [OF c] Cons by simp
      then have "navigate sk rd fsize ks' ?v2 f1 =
          Inr (map (\<lambda>(fmt, p). screen fmt p (window p (min (p + 256) extent))) (visited fsize ks' ?v2))"
        using less.hyps command_ok [OF v1(2) j v1(1) c] f1(2) by blast
      then show ?thesis using f1 Cons c
        by (simp add: navigate.simps [of sk rd fsize "k # ks"] visited.simps [of fsize "k # ks"] Let_def)
    qed
  qed
qed

end

section \<open>The dram device as a file\<close>

text \<open>An open file on the device: the position the kernel keeps for it and the driver.\<close>

definition dram_seek :: "(u64 \<times> dram_state) file_seek" where
  "dram_seek off whence = (\<lambda>(p, s). let (r, p') = my_llseek (of_int off) whence p s in (r, (p', s)))"

definition dram_read :: "(u64 \<Rightarrow> u8) \<Rightarrow> (u64 \<times> dram_state) file_read" where
  "dram_read phys n = (\<lambda>(p, s).
     andThen (my_read phys (\<lambda>_. 0) (of_nat n) p s) (\<lambda>(r, bs, p', s'). Inr (r, bs, (p', s'))))"

definition dram_open :: "resource multiset \<Rightarrow> u64 \<times> dram_state \<Rightarrow> bool" where
  "dram_open base f \<longleftrightarrow> dram_loaded base (snd f) \<and> unat (fst f) \<le> 0x25f600000"

lemma dram_seek_set:
  assumes "dram_open base f" and "0 \<le> p" and "p \<le> 0x25f5ffff8"
  shows "dram_seek p 0 f = (p, (of_int p, snd f)) \<and> unat (of_int p :: u64) = nat p"
proof -
  have u: "uint (of_int p :: u64) = p" using assms(2,3) by (simp add: unsigned_of_int take_bit_int_eq_self)
  then have n: "unat (of_int p :: u64) = nat p" by (simp add: unat_eq_nat_uint)
  then have "sint (of_int p :: u64) = p" using assms(2,3) u by (subst sint_eq_uint_small) simp_all
  moreover have "\<not> (of_int p :: u64) > dram_size (snd f)"
    using assms n by (auto simp: dram_open_def dram_loaded_def word_less_nat_alt)
  ultimately show ?thesis using assms(2) n by (cases f) (simp add: dram_seek_def my_llseek_def)
qed

lemma page_cut:
  assumes "P < 0x25f5ffff8"
  shows "P + min n (4096 - P mod 4096) < 0x25f5ffff8 \<or> P + min n (4096 - P mod 4096) = min (P + n) (0x25f600000 :: nat)"
proof -
  define q r where "q = P div 4096" and "r = P mod 4096"
  have P: "P = 4096 * q + r" "r < 4096" by (simp_all add: q_def r_def)
  then have "q \<le> 0x25f5ff" using assms by linarith
  then consider "q < 0x25f5ff" | "q = 0x25f5ff" by linarith
  then show ?thesis
  proof cases
    case 1
    then have "4096 * q + 4096 < 0x25f5ffff8" by simp
    then have "P + min n (4096 - r) < 0x25f5ffff8" using P by linarith
    then show ?thesis by (simp add: r_def)
  next
    case 2
    then have "P + min n (4096 - r) = min (P + n) 0x25f600000" using P 2 by linarith
    then show ?thesis by (simp add: r_def)
  qed
qed

lemma dram_read_some:
  assumes "dram_open base f" and "0 < n" and "n \<le> 256" and "unat (fst f) < 0x25f5ffff8"
  defines "k \<equiv> read_len n (unat (fst f))"
  shows "dram_read phys n f = Inr (int k, phys_run phys (unat (fst f)) k, (fst f + of_nat k, snd f))"
    and "unat (fst f + of_nat k) = unat (fst f) + k"
    and "unat (fst f) + k < 0x25f5ffff8 \<or> unat (fst f) + k = min (unat (fst f) + n) 0x25f600000"
proof -
  obtain p s where f: "f = (p, s)" by (cases f)
  have sz: "dram_size s = 0x25f5ffff8" using assms(1) f by (simp add: dram_open_def dram_loaded_def)
  have n: "unat (of_nat n :: u64) = n" using assms(3) by (simp add: unat_of_nat)
  have k: "k \<le> n" "k = min n (4096 - unat p mod 4096)" by (simp_all add: k_def f read_len_def)
  show "dram_read phys n f = Inr (int k, phys_run phys (unat (fst f)) k, (fst f + of_nat k, snd f))"
    using my_read_inside [of p s "of_nat n" phys "\<lambda>_. 0"] assms(3,4) n
    by (simp add: f dram_read_def sz word_less_nat_alt k_def)
  show "unat (fst f + of_nat k) = unat (fst f) + k"
    using k(1) assms(3,4) by (simp add: f unat_word_ariths unat_of_nat)
  show "unat (fst f) + k < 0x25f5ffff8 \<or> unat (fst f) + k = min (unat (fst f) + n) 0x25f600000"
    unfolding f fst_conv k(2) by (rule page_cut) (use assms(4) in \<open>simp add: f\<close>)
qed

text \<open>The laws of the interface, for the driver.\<close>

lemma dram_read_law:
  assumes ok: "dram_open base f" and n: "0 < n" "n \<le> 256" and "int (unat (fst f)) < 0x25f5ffff8"
  shows "\<exists>k f'. 0 < k \<and> k \<le> n
    \<and> dram_read phys n f = Inr (int k, map (\<lambda>i. phys (of_nat (nat (int (unat (fst f))) + i))) [0..<k], f')
    \<and> dram_open base f' \<and> int (unat (fst f')) = int (unat (fst f)) + int k
    \<and> (int (unat (fst f')) < 0x25f5ffff8 \<or> int (unat (fst f')) = min (int (unat (fst f)) + int n) 0x25f600000)"
proof -
  let ?k = "read_len n (unat (fst f))"
  have lt: "unat (fst f) < 0x25f5ffff8" using assms(4) by linarith
  note some = dram_read_some [OF ok n lt]
  have "0 < ?k" "?k \<le> n" using n by (simp_all add: read_len_def)
  moreover have "unat (fst f) + ?k \<le> 0x25f600000" using some(3) by auto
  then have "dram_open base (fst f + of_nat ?k, snd f)" using ok some(2) by (simp add: dram_open_def)
  moreover have "int (unat (fst f + of_nat ?k)) = int (unat (fst f)) + int ?k" using some(2) by simp
  moreover have "int (unat (fst f)) + int ?k < 0x25f5ffff8 \<or>
      int (unat (fst f)) + int ?k = min (int (unat (fst f)) + int n) 0x25f600000"
    using some(3) by linarith
  ultimately show ?thesis
    using some(1) by (intro exI [of _ ?k] exI [of _ "(fst f + of_nat ?k, snd f)"]) (simp add: phys_run_def)
qed

lemma dram_eof_law:
  assumes "dram_open base f" and "0x25f5ffff8 \<le> int (unat (fst f))"
  shows "dram_read phys n f = Inr (0, [], f)"
proof -
  have "0x25f5ffff8 \<le> unat (fst f)" using assms(2) by linarith
  then show ?thesis
    using assms(1) by (cases f) (auto simp: dram_read_def my_read_def dram_open_def dram_loaded_def word_le_nat_alt)
qed

lemma dram_seek_law:
  assumes ok: "dram_open base f" and p: "0 \<le> p" "p \<le> 0x25f5ffff8"
  shows "\<exists>f'. dram_seek p 0 f = (p, f') \<and> dram_open base f' \<and> int (unat (fst f')) = p"
proof -
  have "int (unat (of_int p :: u64)) = p" using dram_seek_set [OF assms] p(1) by (simp only: int_nat_eq if_True)
  moreover have "unat (of_int p :: u64) \<le> 0x25f600000" using dram_seek_set [OF assms] p by linarith
  ultimately show ?thesis
    using dram_seek_set [OF assms] ok by (intro exI [of _ "(of_int p, snd f)"]) (simp only: dram_open_def fst_conv snd_conv)
qed

interpretation df: seekable dram_seek "dram_read phys" "\<lambda>n. phys (of_nat n)" "0x25f5ffff8" "0x25f600000"
    "\<lambda>f. int (unat (fst f))" "dram_open base" for phys base
proof unfold_locales
  fix f :: "u64 \<times> dram_state" and n :: nat and p :: int
  assume ok: "dram_open base f"
  show "\<exists>f'. dram_seek 0 2 f = (0x25f5ffff8, f') \<and> dram_open base f'"
    using ok by (cases f) (auto simp: dram_seek_def my_llseek_def dram_open_def dram_loaded_def)
qed (rule dram_seek_law dram_read_law dram_eof_law; assumption | simp)+

lemma dram_window:
  assumes "0 \<le> p" and "p \<le> posmax 0x25f5ffff8"
  shows "df.window phys p (min (p + 256) 0x25f600000) = phys_run phys (nat p) 256"
proof -
  have "posmax 0x25f5ffff8 = 0x25f5fff00" by (simp add: posmax_def)
  then have "min (p + 256) 0x25f600000 = p + 256" using assms(2) by simp
  then show ?thesis by (simp add: df.window_def phys_run_def)
qed

section \<open>Properties\<close>

text \<open>C1. The viewer on the loaded dram device, for every sequence of keys: the session runs without a crash
  (no read leaves the buffer, no line leaves its 80 characters), exits with 0, and each screen shows exactly
  the 256 bytes of physical memory at the position the navigation has reached, however the driver cuts the
  reads at page ends; every such position is a multiple of 16 between 0 and the last one.\<close>

theorem fileview_shows_memory:
  fixes keys :: "int list"
  assumes "dram_loaded base s" and "open_file name = Some (0, s)" and "length name \<le> 80"
  defines "path \<equiv> visited 0x25f5ffff8 keys \<lparr>position = 0, pageincr = incmin, format = 1\<rparr>"
  shows "fileview_main dram_seek (dram_read phys) open_file [prog, name] keys =
      Inr (0, map (\<lambda>(fmt, p). screen fmt p (phys_run phys (nat p) 256)) path)
    \<and> (\<forall>(fmt, p) \<in> set path. 0 \<le> p \<and> p \<le> 0x25f5fff00 \<and> 16 dvd p)"
proof -
  let ?v = "\<lparr>position = 0, pageincr = incmin, format = 1\<rparr> :: viewer"
  have range: "0 \<le> p \<and> p \<le> posmax 0x25f5ffff8 \<and> 16 dvd p" if "(fmt, p) \<in> set path" for fmt p
    using visited_ok [OF viewer_start_ok, of fmt p _ keys] that by (auto simp: path_def)
  have ok: "dram_open base (0, s)" using assms(1) by (simp add: dram_open_def)
  then obtain f1 where f1: "dram_seek 0 2 (0, s) = (0x25f5ffff8, f1)" "dram_open base f1" using df.seek_end by blast
  have "navigate dram_seek (dram_read phys) 0x25f5ffff8 keys ?v f1 =
      Inr (map (\<lambda>(fmt, p). screen fmt p (df.window phys p (min (p + 256) 0x25f600000))) path)"
    unfolding path_def by (rule df.navigate_visited [OF viewer_start_ok f1(2)])
  also have "map (\<lambda>(fmt, p). screen fmt p (df.window phys p (min (p + 256) 0x25f600000))) path =
      map (\<lambda>(fmt, p). screen fmt p (phys_run phys (nat p) 256)) path"
    using range dram_window by (intro map_cong refl) auto
  finally have "fileview_main dram_seek (dram_read phys) open_file [prog, name] keys =
      Inr (0, map (\<lambda>(fmt, p). screen fmt p (phys_run phys (nat p) 256)) path)"
    using f1(1) assms(2,3) by (simp add: fileview_main_def view_file_def MAXNAME_def)
  moreover have "posmax 0x25f5ffff8 = 0x25f5fff00" by (simp add: posmax_def)
  ultimately show ?thesis using range by auto
qed

text \<open>C39. The state of the viewer stays well formed: it starts so (position a multiple of 16 between 0 and
  the last one, one of the five formats, page increment a power of 16 between 16 and 16 to the 10), and
  every key, the address prompt with whatever is typed into it included, keeps it so.\<close>

theorem viewer_well_formed:
  assumes "viewer_ok filesize v"
    and "command filesize key keys (v\<lparr>pageincr := bound_incr (pageincr v)\<rparr>) = Some (stop, v2, keys')"
  shows "viewer_ok filesize \<lparr>position = 0, pageincr = incmin, format = 1\<rparr>
    \<and> viewer_ok filesize (v2\<lparr>position := bound_pos filesize (position v2)\<rparr>)"
  using bounded_viewer [OF assms(1)] command_ok assms(2) viewer_start_ok by metis

text \<open>C38. For a file of any size, whatever keys are pressed, every position shown is a multiple of 16 in the
  range of the file, the format is one of the five, and a line in any of the formats, at any location below
  16 to the 13, is 78 characters long, which fits the line buffer.\<close>

theorem fileview_in_bounds:
  assumes "(fmt, p) \<in> set (visited filesize keys \<lparr>position = 0, pageincr = incmin, format = 1\<rparr>)"
    and "filesize < 16 ^ 13" and "length row = 16" and "i < 16"
  shows "0 \<le> p \<and> 16 dvd p \<and> (p = 0 \<or> p + 241 \<le> filesize)
    \<and> (\<exists>l. outline fmt (p + 16 * int i) row = Inr l \<and> length l = 78)"
proof -
  note p = visited_ok [OF viewer_start_ok assms(1)]
  then have low: "p = 0 \<or> p + 241 \<le> filesize" using posmax_ok(3) [of filesize] by linarith
  have loc: "0 \<le> p + 16 * int i" "p + 16 * int i < 16 ^ 13" using p low assms(2,4) by auto
  have "length (fmt_X 13 (nat (p + 16 * int i))) = 13" using loc by (intro length_fmt_X) (simp_all add: nat_less_iff)
  then have "length (line_text fmt (p + 16 * int i) row) = 78"
    using length_hex_part [OF assms(3)] p assms(3) by (simp add: line_text_def ascii_part_def)
  then show ?thesis using outline_fits [OF loc assms(3)] p low by blast
qed

section \<open>Witnesses\<close>

theorem fileview_shows_memory_witness:
  "fileview_main dram_seek (dram_read ucast) [''/dev/dram'' \<mapsto> (0, dram_running)] [''fileview'', ''/dev/dram''] [KB_QUIT] =
     Inr (0, [screen 1 0 (phys_run ucast 0 256)])"
proof -
  have "visited 0x25f5ffff8 [KB_QUIT] \<lparr>position = 0, pageincr = incmin, format = 1\<rparr> = [(1, 0)]"
    by (simp add: visited.simps command_def kb_defs Let_def)
  then show ?thesis
    using fileview_shows_memory [OF dram_running_loaded, of "[''/dev/dram'' \<mapsto> (0, dram_running)]" "''/dev/dram''" ucast
        "''fileview''" "[KB_QUIT]"] by simp
qed

theorem fileview_in_bounds_witness:
  "\<exists>l. outline 16 0x25f5fff10 (replicate 16 0) = Inr l \<and> length l = 78"
proof -
  have "visited 0x25f5ffff8 [0x6F, KB_END] \<lparr>position = 0, pageincr = incmin, format = 1\<rparr> =
      [(1, 0), (16, 0), (16, 0x25f5fff00)]"
    by (simp add: visited.simps command_def kb_defs Let_def bound_pos_def posmax_def)
  then show ?thesis
    using fileview_in_bounds [of 16 "0x25f5fff00" "0x25f5ffff8" "[0x6F, KB_END]" "replicate 16 0" 1] by simp
qed

theorem viewer_well_formed_witness:
  "viewer_ok 1000 \<lparr>position = bound_pos 1000 0x100, pageincr = 256, format = 2\<rparr>"
proof -
  let ?v = "\<lparr>position = 0, pageincr = 256, format = 2\<rparr> :: viewer"
  have "posmax 1000 = 752" by (simp add: posmax_def)
  then have "viewer_ok 1000 ?v" by (auto simp: viewer_ok_def intro!: bexI [of _ 2])
  moreover have "command 1000 KB_PGDN [] (?v\<lparr>pageincr := bound_incr (pageincr ?v)\<rparr>) =
      Some (False, ?v\<lparr>position := 0x100\<rparr>, [])"
    by (simp add: command_def kb_defs bound_incr_def incmin_def incmax_def)
  ultimately show ?thesis using viewer_well_formed [of 1000 ?v KB_PGDN "[]"] by fastforce
qed

end
