(* ===== verification/Fileterm.thy ===== *)
theory Fileterm
  imports Fileview
begin

text \<open>
  What \<^verbatim>\<open>src/tools/fileview/fileview.cpp\<close> puts where on the terminal: the legend, the sixteen lines of a turn, the
  prompts of row 23 with the echo of the typed address, and the clearing at the end. Each \<^verbatim>\<open>printf\<close> is a row, a
  column and a text; a terminal is its cells. The cursor sequence \<^verbatim>\<open>ESC [ r ; c H\<close> counts from 1 and takes 0 for 1.
\<close>

section \<open>The output\<close>

definition progname :: string where "progname = ''FILEVIEW''"
definition ROW :: int where "ROW = 6"
definition COL :: int where "COL = 2"

type_synonym print = "int \<times> int \<times> string"

text \<open>The column of a centred text: \<^verbatim>\<open>strlen\<close> is unsigned and 64 bits wide, \<^verbatim>\<open>k\<close> is an \<^verbatim>\<open>int\<close>.\<close>

definition centre :: "string \<Rightarrow> int" where
  "centre t = sint (ucast ((77 - of_nat (length t) :: u64) div 2) :: u32)"

definition infomsg :: "int \<Rightarrow> string" where
  "infomsg filesize = (let n = unat (of_int filesize :: u64) in ''filesize: '' @ fmt_u n @ '' (=0x'' @ fmt_X 13 n @ '')'')"

definition legend :: "string \<Rightarrow> int \<Rightarrow> crash + print list" where
  "legend filename filesize =
     (if length (infomsg filesize) \<ge> 80 then Inl Bad_access
      else Inr [(1, centre progname, '' '' @ progname @ '' ''),
                (3, centre filename, [CHR 0x27] @ filename @ [CHR 0x27]),
                (24, sint (ucast (78 - of_nat (length (infomsg filesize)) :: u64) :: u32), infomsg filesize)])"

text \<open>The lines of a turn, and what the key that follows prints.\<close>

definition line_prints :: "string list \<Rightarrow> print list" where
  "line_prints ls = map (\<lambda>i. (ROW + int i, COL, ls ! i)) [0..<length ls]"

fun echo :: "int list \<Rightarrow> string \<Rightarrow> print list" where
  "echo [] inbuf = []"
| "echo (k # ks) inbuf =
     (if 15 \<le> length inbuf then []
      else
        let ch0 = k AND 0xFFFFFF
        in if ch0 = 0x0A \<or> ch0 = KB_QUIT then []
           else
             let ch = (if ch0 = KB_LEFT \<or> ch0 = KB_DEL then KB_BACK else ch0);
                 inbuf1 = (if ch = KB_BACK then butlast inbuf else inbuf);
                 wiped = (if ch = KB_BACK \<and> inbuf \<noteq> [] then [(23, COL + 9 + int (length inbuf1), '' '')] else [])
             in if ch < 0x20 \<or> ch > 0x7E then wiped @ echo ks inbuf1
                else wiped @ (23, COL + 9 + int (length inbuf1), [char_of (nat ch)]) # echo ks (inbuf1 @ [char_of (nat ch)]))"

definition key_prints :: "int \<Rightarrow> int list \<Rightarrow> print list" where
  "key_prints key ks =
     (23, COL, replicate 60 (CHR '' '')) #
     (let inch = key AND 0xFFFFFF
      in if inch = KB_SEEK then
           (23, COL, ''Address: '') # echo ks '''' @
           (if read_addr ks '''' = None then [] else [(23, COL, replicate 70 (CHR '' ''))])
         else if inch \<in> {0x48, 0x68, KB_HOME, 0x45, 0x65, KB_END, KB_LNDN, KB_LNUP, KB_PGDN, KB_PGUP, KB_RGHT, KB_LEFT,
                0x42, 0x62, 0x57, 0x77, 0x44, 0x64, 0x51, 0x71, 0x4F, 0x6F, KB_QUIT} then []
         else [(23, 2, ''Hit <ESC> to quit'')])"

section \<open>The terminal\<close>

type_synonym cells = "nat \<Rightarrow> nat \<Rightarrow> char"   \<comment> \<open>by row and column, both from 1\<close>

definition put_text :: "print \<Rightarrow> cells \<Rightarrow> cells" where
  "put_text = (\<lambda>(r, c, t) g i j.
     let c1 = nat (max 1 c) in if i = nat r \<and> c1 \<le> j \<and> j < c1 + length t then t ! (j - c1) else g i j)"

text \<open>The screen is cleared before the legend; the end of the program clears it from row 23 on.\<close>

definition cleared :: cells where "cleared = (\<lambda>i j. CHR '' '')"

definition clear_below :: "cells \<Rightarrow> cells" where
  "clear_below g = (\<lambda>i j. if 23 \<le> i then CHR '' '' else g i j)"

definition row_text :: "cells \<Rightarrow> nat \<Rightarrow> nat \<Rightarrow> nat \<Rightarrow> string" where
  "row_text g r c n = map (\<lambda>j. g r (c + j)) [0..<n]"

text \<open>A turn: the format, position and bytes it shows, the key pressed and the keys after it.\<close>

record turn =
  t_format :: nat
  t_position :: int
  t_window :: "u8 list"
  t_key :: int
  t_keys :: "int list"

definition turn_prints :: "turn \<Rightarrow> print list" where
  "turn_prints t = line_prints (screen (t_format t) (t_position t) (t_window t)) @ key_prints (t_key t) (t_keys t)"

definition turn_ok :: "turn \<Rightarrow> bool" where
  "turn_ok t \<longleftrightarrow> t_format t \<in> {1, 2, 4, 8, 16} \<and> 0 \<le> t_position t \<and> t_position t + 256 \<le> 16 ^ 13 \<and> length (t_window t) = 256"

definition turn0 :: turn where
  "turn0 = \<lparr>t_format = 1, t_position = 0, t_window = replicate 256 0x41, t_key = 0x1B, t_keys = []\<rparr>"

section \<open>Lemmas\<close>

lemma put_text_other: "i \<noteq> nat (fst p) \<Longrightarrow> put_text p g i = g i"
  by (cases p) (simp add: put_text_def Let_def fun_eq_iff)

lemma fold_put_other: "(\<And>p. p \<in> set ps \<Longrightarrow> i \<noteq> nat (fst p)) \<Longrightarrow> fold put_text ps g i = g i"
  by (induction ps arbitrary: g) (simp_all add: put_text_other)

lemma row_text_put: "row_text (put_text (r, c, t) g) (nat r) (nat (max 1 c)) (length t) = t"
  by (rule nth_equalityI) (simp_all add: row_text_def put_text_def Let_def)

text \<open>A print is readable where it was put as long as nothing later goes to its row.\<close>

lemma row_text_fold:
  assumes "\<forall>p \<in> set later. nat r \<noteq> nat (fst p)"
  shows "row_text (fold put_text (earlier @ (r, c, t) # later) g) (nat r) (nat (max 1 c)) (length t) = t"
proof -
  have "fold put_text (earlier @ (r, c, t) # later) g (nat r) = put_text (r, c, t) (fold put_text earlier g) (nat r)"
    using fold_put_other [of later "nat r"] assms by simp
  then show ?thesis using row_text_put [of r c t "fold put_text earlier g"] by (simp add: row_text_def)
qed

lemma echo_row: "p \<in> set (echo ks inbuf) \<Longrightarrow> fst p = 23"
  by (induction ks inbuf rule: echo.induct) (auto simp: Let_def split: if_splits)

lemma key_prints_row: "p \<in> set (key_prints k ks) \<Longrightarrow> fst p = 23"
  by (auto simp: key_prints_def Let_def dest: echo_row split: if_splits)

lemma line_prints_row: "p \<in> set (line_prints ls) \<Longrightarrow> \<exists>i < length ls. fst p = 6 + int i"
  by (auto simp: line_prints_def ROW_def)

lemma length_screen [simp]: "length (screen fmt p w) = 16"
  by (simp add: screen_def)

lemma turn_rows: "p \<in> set (turn_prints t) \<Longrightarrow> fst p = 23 \<or> 6 \<le> fst p \<and> fst p \<le> 21"
  by (auto simp: turn_prints_def dest!: line_prints_row key_prints_row)

lemma screen_line_width:
  assumes "turn_ok t" and "i < 16"
  shows "length (screen (t_format t) (t_position t) (t_window t) ! i) = 78"
proof -
  let ?row = "buf_get (16 * i) 16 (t_window t)"
  have row: "length ?row = 16" using assms by (simp add: turn_ok_def buf_simps)
  have "nat (t_position t + 16 * int i) < 16 ^ 13"
    using assms by (simp add: turn_ok_def nat_less_iff)
  then have "length (fmt_X 13 (nat (t_position t + 16 * int i))) = 13" by (rule length_fmt_X) simp
  then show ?thesis
    using assms length_hex_part [OF row, of "t_format t"] row
    by (simp add: screen_def line_text_def ascii_part_def turn_ok_def)
qed

text \<open>The line of a turn at the end of a session.\<close>

lemma last_turn_line:
  assumes "turn_ok t" and "i < 16"
  shows "row_text (fold put_text (earlier @ turn_prints t) g) (6 + i) 2 78 = screen (t_format t) (t_position t) (t_window t) ! i"
proof -
  let ?ls = "screen (t_format t) (t_position t) (t_window t)"
  let ?f = "\<lambda>i. (ROW + int i, COL, ?ls ! i)"
  have split: "[0..<16] = [0..<i] @ i # [Suc i..<16]" using assms(2) upt_add_eq_append [of 0 i "16 - i"] by (simp add: upt_conv_Cons)
  let ?later = "map ?f [Suc i..<16] @ key_prints (t_key t) (t_keys t)"
  have eq: "earlier @ turn_prints t = (earlier @ map ?f [0..<i]) @ ?f i # ?later"
    unfolding turn_prints_def line_prints_def length_screen split by simp
  have "\<forall>p \<in> set ?later. nat (ROW + int i) \<noteq> nat (fst p)"
  proof
    fix p assume "p \<in> set ?later"
    then show "nat (ROW + int i) \<noteq> nat (fst p)" using key_prints_row [of p] assms(2) by (auto simp: ROW_def)
  qed
  from row_text_fold [of ?later "ROW + int i" "earlier @ map ?f [0..<i]" COL "?ls ! i" g, OF this]
  show ?thesis unfolding eq using screen_line_width [OF assms]
    by (simp add: ROW_def COL_def nat_add_distrib)
qed

lemma turns_keep_legend:
  assumes "i \<noteq> 23" and "i < 6 \<or> 21 < i"
  shows "fold put_text (concat (map turn_prints ts)) g i = g i"
proof (rule fold_put_other)
  fix p assume "p \<in> set (concat (map turn_prints ts))"
  then obtain t where "p \<in> set (turn_prints t)" by auto
  from turn_rows [OF this] assms show "i \<noteq> nat (fst p)" by auto
qed

text \<open>The column arithmetic of the legend, in range and wrapped.\<close>

lemma centre_in_range:
  assumes "length t \<le> 77"
  shows "centre t = int ((77 - length t) div 2)"
proof -
  let ?x = "(77 - of_nat (length t)) div 2 :: u64"
  have "unat (77 - of_nat (length t) :: u64) = 77 - length t"
    using assms by (subst unat_sub) (simp_all add: word_le_nat_alt unat_of_nat)
  then have "unat ?x = (77 - length t) div 2" by (simp add: unat_div)
  then have "unat (ucast ?x :: u32) = (77 - length t) div 2"
    by (simp add: unsigned_ucast_eq take_bit_nat_eq_self)
  then show ?thesis unfolding centre_def by (subst sint_eq_uint_small) (simp_all add: uint_nat)
qed

lemma centre_wraps:
  assumes "78 \<le> length t" and "length t \<le> 80"
  shows "centre t < 0"
proof -
  have "length t = 78 \<or> length t = 79 \<or> length t = 80" using assms by linarith
  then show ?thesis by (auto simp: centre_def)
qed

lemma length_infomsg:
  assumes "0 \<le> filesize" and "filesize < 2 ^ 63"
  shows "length (infomsg filesize) \<le> 51"
proof -
  let ?n = "unat (of_int filesize :: u64)"
  have "?n < 2 ^ 63" using assms by (simp add: unat_eq_nat_uint unsigned_of_int take_bit_int_eq_self nat_less_iff)
  then have "?n < 10 ^ 19" "?n < 16 ^ 16" by simp_all
  then have "length (fmt_u ?n) \<le> 19" "length (udigits digit_upper 16 ?n) \<le> 16"
    by (auto intro: length_fmt_u_le length_udigits_le)
  then show ?thesis by (simp add: infomsg_def Let_def fmt_X_def length_zpad)
qed

text \<open>The legend of a name that fits, as printed, and the row each part stays in.\<close>

lemma info_column:
  assumes "length t \<le> 51"
  shows "sint (ucast (78 - of_nat (length t) :: u64) :: u32) = 78 - int (length t)"
proof -
  have "unat (78 - of_nat (length t) :: u64) = 78 - length t"
    using assms by (subst unat_sub) (simp_all add: word_le_nat_alt unat_of_nat)
  then have u: "unat (ucast (78 - of_nat (length t) :: u64) :: u32) = 78 - length t"
    by (simp add: unsigned_ucast_eq take_bit_nat_eq_self)
  then show ?thesis using assms by (subst sint_eq_uint_small) (simp_all add: uint_nat of_nat_diff)
qed

lemma legend_fits:
  assumes "length filename \<le> 77" and "0 \<le> filesize" and "filesize < 2 ^ 63"
  shows "legend filename filesize = Inr [(1, 34, '' '' @ progname @ '' ''), (3, int ((77 - length filename) div 2), [CHR 0x27] @ filename @ [CHR 0x27]),
    (24, 78 - int (length (infomsg filesize)), infomsg filesize)]"
proof -
  have "length (infomsg filesize) \<le> 51" using length_infomsg [OF assms(2,3)] .
  moreover have "centre progname = 34" by (simp add: centre_def progname_def)
  ultimately show ?thesis
    using centre_in_range [OF assms(1)] info_column [of "infomsg filesize"] by (simp add: legend_def)
qed

section \<open>Properties\<close>

text \<open>C23. The layout of the terminal holds together for a name of at most 77 characters (the program
  accepts up to 80, and from 78 on the column of the legend wraps, which is shown below): after any number of turns
  (whatever the keys, the prompts and the typed addresses), rows 6 to 21 show exactly the sixteen lines of the
  last turn, rows 1, 3 and 24 still show the program's name, the quoted file name and the file size, and every
  text ends within 80 columns. Quitting keeps the lines and clears the rows from 23 on.\<close>

theorem fileview_layout:
  assumes "length filename \<le> 77" and "0 \<le> filesize" and "filesize < 2 ^ 63" and "turn_ok t"
  defines "k \<equiv> max 1 ((77 - length filename) div 2)"
    and "m \<equiv> length (infomsg filesize)"
  shows "\<exists>ps. legend filename filesize = Inr ps \<and> (let g = fold put_text (ps @ concat (map turn_prints (ts @ [t]))) cleared in
    (\<forall>i < 16. row_text g (6 + i) 2 78 = screen (t_format t) (t_position t) (t_window t) ! i)
    \<and> row_text g 1 34 (length progname + 2) = '' '' @ progname @ '' ''
    \<and> row_text g 3 k (length filename + 2) = [CHR 0x27] @ filename @ [CHR 0x27] \<and> k + length filename + 1 \<le> 80
    \<and> row_text g 24 (78 - m) m = infomsg filesize \<and> m < 78
    \<and> (\<forall>i < 16. row_text (clear_below g) (6 + i) 2 78 = row_text g (6 + i) 2 78))"
proof -
  let ?q = "[CHR 0x27] @ filename @ [CHR 0x27]"
  define ps :: "print list" where "ps = [(1, 34, '' '' @ progname @ '' ''), (3, int ((77 - length filename) div 2), ?q), (24, 78 - int m, infomsg filesize)]"
  define g where "g = fold put_text (ps @ concat (map turn_prints (ts @ [t]))) cleared"
  have m: "m \<le> 51" using length_infomsg [OF assms(2,3)] by (simp add: m_def)
  have leg: "legend filename filesize = Inr ps" using legend_fits [OF assms(1-3)] by (simp add: ps_def m_def)
  have lines: "row_text g (6 + i) 2 78 = screen (t_format t) (t_position t) (t_window t) ! i" if "i < 16" for i
    using last_turn_line [OF assms(4) that, of "ps @ concat (map turn_prints ts)" cleared] by (simp add: g_def)
  have keep: "row_text g i c n = row_text (fold put_text ps cleared) i c n" if "i \<noteq> 23" "i < 6 \<or> 21 < i" for i c n
    using turns_keep_legend [OF that, of "ts @ [t]" "fold put_text ps cleared"] by (simp add: g_def row_text_def)
  have r1: "row_text g 1 34 (length progname + 2) = '' '' @ progname @ '' ''"
    using row_text_fold [of "tl ps" 1 "[]" 34 "'' '' @ progname @ '' ''" cleared] keep [of 1] by (simp add: ps_def)
  have "nat (max 1 (int ((77 - length filename) div 2))) = k" by (simp add: k_def max_def)
  then have r3: "row_text g 3 k (length filename + 2) = ?q"
    using row_text_fold [of "drop 2 ps" 3 "take 1 ps" "int ((77 - length filename) div 2)" ?q cleared]
      keep [of 3] by (simp add: ps_def)
  have "nat (max 1 (78 - int m)) = 78 - m" "nat (78 - int m) = 78 - m" using m by simp_all
  then have r24: "row_text g 24 (78 - m) m = infomsg filesize"
    using row_text_fold [of "[]" 24 "take 2 ps" "78 - int m" "infomsg filesize" cleared]
      keep [of 24] by (simp add: ps_def m_def)
  have "k + length filename + 1 \<le> 80" using assms(1) by (simp add: k_def)
  moreover have "row_text (clear_below g) (6 + i) 2 78 = row_text g (6 + i) 2 78" if "i < 16" for i
    using that by (simp add: row_text_def clear_below_def)
  ultimately show ?thesis
    using leg lines r1 r3 r24 m by (intro exI [of _ ps], unfold Let_def, fold g_def) auto
qed

text \<open>A name of 78 to 80 characters, which the program accepts, is put at a negative column: the difference of an
  \<^verbatim>\<open>int\<close> and \<^verbatim>\<open>strlen\<close> is unsigned and wraps.\<close>

theorem legend_long_name:
  assumes "78 \<le> length filename" and "length filename \<le> 80" and "0 \<le> filesize" and "filesize < 2 ^ 63"
  shows "\<exists>a k b. legend filename filesize = Inr [a, (3, k, [CHR 0x27] @ filename @ [CHR 0x27]), b] \<and> k < 0"
  using centre_wraps [OF assms(1,2)] length_infomsg [OF assms(3,4)] by (simp add: legend_def)

section \<open>Witnesses\<close>

theorem fileview_layout_witness:
  "\<exists>ps. legend ''/dev/dram'' 0x1000 = Inr ps
    \<and> row_text (fold put_text (ps @ turn_prints turn0) cleared) 3 34 (length ''/dev/dram'' + 2) = [CHR 0x27] @ ''/dev/dram'' @ [CHR 0x27]"
proof -
  have "turn_ok turn0" by (simp add: turn_ok_def turn0_def)
  from fileview_layout [of "''/dev/dram''" "0x1000" turn0 "[]", OF _ _ _ this] show ?thesis by (auto simp: Let_def max_def)
qed

end
