(* ===== verification/Timesof.thy ===== *)
theory Timesof
  imports Cformat
begin

text \<open>
  \<^verbatim>\<open>src/code/timestatic/timesof.c\<close>: a module that measures a delay of one second with the wall clock when it is
  loaded and logs the cost in microseconds. The kernel's clock is a parameter: a state, a reading
  (\<^verbatim>\<open>do_gettimeofday\<close>) and the effect of \<^verbatim>\<open>mdelay\<close> on it.
\<close>

section \<open>The module\<close>

text \<open>\<^verbatim>\<open>struct timeval\<close>: two signed 64-bit numbers.\<close>

datatype timeval = Timeval (tv_sec: u64) (tv_usec: u64)

text \<open>The delay loop from pass \<open>i\<close> on.\<close>

function delay_from :: "(u32 \<Rightarrow> 'c \<Rightarrow> 'c) \<Rightarrow> nat \<Rightarrow> 'c \<Rightarrow> 'c" where
  "delay_from mdelay i c = (if i < 10 then delay_from mdelay (Suc i) (mdelay 100 c) else c)"
  by pat_completeness auto
termination
  by (relation "measure (\<lambda>(m, i, c). 10 - i)") auto

declare delay_from.simps [simp del]

definition cost_time :: "timeval \<Rightarrow> timeval \<Rightarrow> u64" where
  "cost_time start_time end_time =
     (let secsDiff = tv_sec end_time - tv_sec start_time
      in secsDiff * 1000000 + (tv_usec end_time - tv_usec start_time))"

definition kernel_time_init ::
  "('c \<Rightarrow> timeval) \<Rightarrow> (u32 \<Rightarrow> 'c \<Rightarrow> 'c) \<Rightarrow> 'c \<times> string list \<Rightarrow> int \<times> 'c \<times> string list" where
  "kernel_time_init do_gettimeofday mdelay = (\<lambda>(c, klines).
     let start_time = do_gettimeofday c;
         c1 = delay_from mdelay 0 c;
         end_time = do_gettimeofday c1
     in (0, c1, klines @ [''kernel time test ...'',
           ''Cost time: '' @ fmt_d (sint (cost_time start_time end_time)) @ '' us'']))"

definition kernel_time_exit :: "'c \<times> string list \<Rightarrow> 'c \<times> string list" where
  "kernel_time_exit = (\<lambda>(c, klines). (c, klines @ [''kernel time exit'']))"

section \<open>The order of time values\<close>

text \<open>Time values are ordered by seconds, then microseconds, both signed.\<close>

instantiation timeval :: linorder
begin

definition less_eq_timeval :: "timeval \<Rightarrow> timeval \<Rightarrow> bool" where
  "less_eq_timeval a b \<longleftrightarrow> sint (tv_sec a) < sint (tv_sec b)
     \<or> sint (tv_sec a) = sint (tv_sec b) \<and> sint (tv_usec a) \<le> sint (tv_usec b)"

definition less_timeval :: "timeval \<Rightarrow> timeval \<Rightarrow> bool" where
  "less_timeval a b \<longleftrightarrow> sint (tv_sec a) < sint (tv_sec b)
     \<or> sint (tv_sec a) = sint (tv_sec b) \<and> sint (tv_usec a) < sint (tv_usec b)"

instance
proof
  fix x y z :: timeval
  show "x < y \<longleftrightarrow> x \<le> y \<and> \<not> y \<le> x" by (auto simp: less_eq_timeval_def less_timeval_def)
  show "x \<le> x" by (simp add: less_eq_timeval_def)
  show "x \<le> y \<Longrightarrow> y \<le> z \<Longrightarrow> x \<le> z" by (auto simp: less_eq_timeval_def)
  show "x \<le> y \<Longrightarrow> y \<le> x \<Longrightarrow> x = y"
    by (cases x; cases y) (auto simp: less_eq_timeval_def intro: signed_word_eqI)
  show "x \<le> y \<or> y \<le> x" by (auto simp: less_eq_timeval_def)
qed

end

section \<open>Specification\<close>

text \<open>A time value as the kernel delivers it: microseconds below a million, seconds below 2 to the 40
  (some 34000 years); and the instant it denotes.\<close>

definition normal :: "timeval \<Rightarrow> bool" where
  "normal t \<longleftrightarrow> 0 \<le> sint (tv_sec t) \<and> sint (tv_sec t) < 2 ^ 40 \<and> 0 \<le> sint (tv_usec t) \<and> sint (tv_usec t) < 1000000"

definition usecs :: "timeval \<Rightarrow> int" where
  "usecs t = sint (tv_sec t) * 1000000 + sint (tv_usec t)"

text \<open>What the kernel documents of the two calls, for the ten delays of this run: the readings at both ends
  are normal, and each delay of 100 milliseconds takes at least that long on the clock (which nobody sets
  back meanwhile).\<close>

definition clock_ok :: "('c \<Rightarrow> timeval) \<Rightarrow> (u32 \<Rightarrow> 'c \<Rightarrow> 'c) \<Rightarrow> 'c \<Rightarrow> bool" where
  "clock_ok do_gettimeofday mdelay c \<longleftrightarrow>
     (let at = (\<lambda>k. do_gettimeofday ((mdelay 100 ^^ k) c))
      in normal (at 0) \<and> normal (at 10) \<and> (\<forall>k \<in> {0..<10}. usecs (at k) + 100000 \<le> usecs (at (Suc k))))"

text \<open>A clock that counts microseconds.\<close>

definition count_clock :: "nat \<Rightarrow> timeval" where
  "count_clock c = Timeval (of_nat (c div 1000000)) (of_nat (c mod 1000000))"

definition count_delay :: "u32 \<Rightarrow> nat \<Rightarrow> nat" where
  "count_delay n c = c + 1000 * unat n + 1"

section \<open>Lemmas\<close>

lemma sint_add_exact:
  fixes a b :: u64
  assumes "- (2 ^ 63) \<le> sint a + sint b" and "sint a + sint b < 2 ^ 63"
  shows "sint (a + b) = sint a + sint b"
  using assms by (simp add: sint_word_ariths(1) signed_take_bit_int_eq_self)

text \<open>The 64-bit difference is exact: no intermediate result leaves the range.\<close>

lemma cost_time_exact:
  assumes "normal a" and "normal b"
  shows "sint (cost_time a b) = usecs b - usecs a"
proof -
  let ?d = "tv_sec b - tv_sec a"
  let ?u = "tv_usec b - tv_usec a"
  have d: "sint ?d = sint (tv_sec b) - sint (tv_sec a)"
    using assms by (simp add: sint_word_ariths(2) signed_take_bit_int_eq_self normal_def)
  have u: "sint ?u = sint (tv_usec b) - sint (tv_usec a)"
    using assms by (simp add: sint_word_ariths(2) signed_take_bit_int_eq_self normal_def)
  have m: "sint (?d * 1000000) = sint ?d * 1000000"
    unfolding sint_word_ariths(3) d using assms by (simp add: signed_take_bit_int_eq_self normal_def)
  have "sint (?d * 1000000 + ?u) = sint (?d * 1000000) + sint ?u"
    using assms d u m by (intro sint_add_exact) (simp_all add: normal_def)
  then show ?thesis using d u m by (simp add: cost_time_def usecs_def algebra_simps)
qed

lemma usecs_le: "normal a \<Longrightarrow> normal b \<Longrightarrow> a \<le> b \<longleftrightarrow> usecs a \<le> usecs b"
  by (auto simp: less_eq_timeval_def usecs_def normal_def)

lemma delay_from_iterates: "i \<le> 10 \<Longrightarrow> delay_from md i c = (md 100 ^^ (10 - i)) c"
proof (induction "10 - i" arbitrary: i c)
  case 0
  then show ?case by (simp add: delay_from.simps)
next
  case (Suc n)
  then have i: "i < 10" and n: "n = 10 - Suc i" by simp_all
  have "delay_from md (Suc i) (md 100 c) = (md 100 ^^ n) (md 100 c)" using Suc.hyps(1) [OF n] i n by simp
  then have "delay_from md i c = (md 100 ^^ n) (md 100 c)" using i by (simp add: delay_from.simps [of md i])
  also have "\<dots> = (md 100 ^^ Suc n) c" by (simp add: funpow_swap1)
  finally show ?case using Suc.hyps(2) by simp
qed

lemma clock_after:
  assumes "clock_ok gt md c" and "k \<le> 10"
  shows "usecs (gt c) + 100000 * int k \<le> usecs (gt ((md 100 ^^ k) c))"
  using assms(2)
proof (induction k)
  case (Suc k)
  have "\<forall>k \<in> {0..<10}. usecs (gt ((md 100 ^^ k) c)) + 100000 \<le> usecs (gt ((md 100 ^^ Suc k) c))"
    using assms(1) unfolding clock_ok_def Let_def by blast
  then have "usecs (gt ((md 100 ^^ k) c)) + 100000 \<le> usecs (gt ((md 100 ^^ Suc k) c))"
    using Suc.prems by (metis Suc_le_lessD atLeastLessThan_iff le0)
  with Suc show ?case by simp
qed simp

section \<open>Properties\<close>

text \<open>C40. Loading the module returns 0 and logs the exact number of microseconds between its two clock
  readings: no step of the 64-bit computation overflows. The number is at least a million (the ten delays
  of 100 milliseconds), and the end time is after the start time in the order of time values.\<close>

theorem kernel_time_init_reports:
  assumes "clock_ok do_gettimeofday mdelay c"
  shows "\<exists>c1. kernel_time_init do_gettimeofday mdelay (c, klines) =
      (0, c1, klines @ [''kernel time test ...'',
        ''Cost time: '' @ fmt_d (usecs (do_gettimeofday c1) - usecs (do_gettimeofday c)) @ '' us''])
    \<and> 1000000 \<le> usecs (do_gettimeofday c1) - usecs (do_gettimeofday c)
    \<and> do_gettimeofday c < do_gettimeofday c1"
proof -
  let ?c1 = "(mdelay 100 ^^ 10) c"
  have norm: "normal (do_gettimeofday c)" "normal (do_gettimeofday ?c1)"
    using assms by (simp_all add: clock_ok_def Let_def)
  have d: "1000000 \<le> usecs (do_gettimeofday ?c1) - usecs (do_gettimeofday c)"
    using clock_after [OF assms, of 10] by simp
  then have "\<not> do_gettimeofday ?c1 \<le> do_gettimeofday c" using usecs_le [OF norm(2,1)] by linarith
  with d show ?thesis
    by (intro exI [of _ ?c1])
      (simp add: kernel_time_init_def Let_def delay_from_iterates cost_time_exact [OF norm] not_le)
qed

section \<open>Witnesses\<close>

theorem kernel_time_init_reports_witness:
  "\<exists>c1. kernel_time_init count_clock count_delay (5999000, []) = (0, c1, [''kernel time test ...'', ''Cost time: 1000010 us''])"
proof -
  have at: "(count_delay 100 ^^ k) 5999000 = 5999000 + 100001 * k" for k
    by (induction k) (simp_all add: count_delay_def)
  have "clock_ok count_clock count_delay 5999000"
    by (simp add: clock_ok_def at Let_def count_clock_def normal_def usecs_def atLeastLessThan_nat_numeral)
  from kernel_time_init_reports [OF this, of "[]"] show ?thesis
    by (auto simp: kernel_time_init_def Let_def delay_from_iterates at count_clock_def usecs_def fmt_eval digit_lower_eval)
qed

end
