(* ===== verification/Ns.thy ===== *)
theory Ns
  imports Cformat
begin

text \<open>
  \<^verbatim>\<open>src/code/namespace/test/ns_utsnts.c\<close>: a process that starts a child in new namespaces, writes the child's
  user and group maps, and tells it through a pipe to go on. The two processes interleave freely, so the
  program is a step relation on the program counters of both and what they share: the pipe, of which each
  has its own copy of the write end (\<^verbatim>\<open>clone\<close> copies the table of open files), and the files of \<^verbatim>\<open>/proc\<close>.
\<close>

section \<open>State\<close>

datatype parent_pc = P_start | P_clone | P_uid | P_gid | P_close | P_wait | P_done
datatype child_pc = C_none | C_start | C_close | C_read | C_host | C_mount | C_exec | C_shell | C_exited

record ns =
  parent :: parent_pc
  child :: child_pc
  parent_wr :: bool                \<comment> \<open>the parent's \<^verbatim>\<open>pipefd[1]\<close> is an open write end\<close>
  child_wr :: bool                 \<comment> \<open>the child's copy of it is\<close>
  files :: "string \<rightharpoonup> string"      \<comment> \<open>what was written to the files of \<^verbatim>\<open>/proc\<close>\<close>
  hostname :: "u8 list"            \<comment> \<open>in the child's UTS namespace\<close>
  proc_mounted :: bool
  parent_log :: "string list"
  child_log :: "string list"

text \<open>The answers of the system: the ids of the caller and the pids, whether \<^verbatim>\<open>pipe\<close>, \<^verbatim>\<open>fopen\<close>, \<^verbatim>\<open>mount\<close> and
  \<^verbatim>\<open>execv\<close> succeed, and what \<^verbatim>\<open>clone\<close> returns.\<close>

record ns_env =
  euid :: int
  egid :: int
  uid :: int
  gid :: int
  child_ids :: "int \<times> int \<times> int \<times> int"
  parent_pid :: int
  child_pid :: int                 \<comment> \<open>the pid the child sees of itself\<close>
  pipe_ok :: bool
  clone_ret :: int
  fopen_ok :: "string \<Rightarrow> bool"
  mount_ok :: bool
  exec_ok :: bool
  shell_ends :: bool               \<comment> \<open>whether the program that \<^verbatim>\<open>execv\<close> starts ever exits\<close>

section \<open>The program\<close>

text \<open>\<^verbatim>\<open>%5d\<close>.\<close>

definition fmt_5d :: "int \<Rightarrow> string" where
  "fmt_5d n = replicate (5 - length (fmt_d n)) (CHR '' '') @ fmt_d n"

definition ids_line :: "string \<Rightarrow> int \<times> int \<times> int \<times> int \<Rightarrow> string" where
  "ids_line who = (\<lambda>(eu, eg, u, g). who @ '': eUID = '' @ fmt_d eu @ '';  eGID = '' @ fmt_d eg @
     '', UID='' @ fmt_d u @ '', GID='' @ fmt_d g)"

definition set_map :: "ns_env \<Rightarrow> string \<Rightarrow> int \<Rightarrow> int \<Rightarrow> int \<Rightarrow> ns \<Rightarrow> ns" where
  "set_map e file inside_id outside_id len s =
     (if fopen_ok e file
      then s\<lparr>files := (files s)(file \<mapsto> fmt_d inside_id @ '' '' @ fmt_d outside_id @ '' '' @ fmt_d len)\<rparr>
      else s\<lparr>parent_log := parent_log s @ [''open file error'']\<rparr>)"

definition uid_map_file :: "int \<Rightarrow> string" where
  "uid_map_file pid = ''/proc/'' @ fmt_d pid @ ''/uid_map''"

definition gid_map_file :: "int \<Rightarrow> string" where
  "gid_map_file pid = ''/proc/'' @ fmt_d pid @ ''/gid_map''"

definition set_uid_map :: "ns_env \<Rightarrow> int \<Rightarrow> int \<Rightarrow> int \<Rightarrow> int \<Rightarrow> ns \<Rightarrow> ns" where
  "set_uid_map e pid inside_id outside_id len s = set_map e (uid_map_file pid) inside_id outside_id len s"

definition set_gid_map :: "ns_env \<Rightarrow> int \<Rightarrow> int \<Rightarrow> int \<Rightarrow> int \<Rightarrow> ns \<Rightarrow> ns" where
  "set_gid_map e pid inside_id outside_id len s = set_map e (gid_map_file pid) inside_id outside_id len s"

text \<open>One step of the child; \<open>None\<close> while it blocks or when it is over. The shell it becomes is not part of the
  program and may go on for ever: whether it exits is an answer of the system. Nothing is ever written to the pipe, so
  \<^verbatim>\<open>read\<close> returns only when no write end is open any more (or when there is no pipe at all).\<close>

definition container_main :: "ns_env \<Rightarrow> ns \<Rightarrow> ns option" where
  "container_main e s =
     (case child s of
        C_none \<Rightarrow> None
      | C_start \<Rightarrow> Some (s\<lparr>child := C_close,
          child_log := child_log s @ [''Container ['' @ fmt_5d (child_pid e) @ ''] - inside the container!'',
            ids_line ''Container'' (child_ids e)]\<rparr>)
      | C_close \<Rightarrow> Some (s\<lparr>child := C_read, child_wr := False\<rparr>)
      | C_read \<Rightarrow> if parent_wr s \<or> child_wr s then None else Some (s\<lparr>child := C_host\<rparr>)
      | C_host \<Rightarrow> Some (s\<lparr>child := C_mount, hostname := take 10 (cstr ''container''),
          child_log := child_log s @ [''Container ['' @ fmt_5d (child_pid e) @ ''] - setup hostname!'']\<rparr>)
      | C_mount \<Rightarrow> Some (s\<lparr>child := C_exec, proc_mounted := mount_ok e\<rparr>)
      | C_exec \<Rightarrow>
          if exec_ok e then Some (s\<lparr>child := C_shell\<rparr>)
          else Some (s\<lparr>child := C_exited, child_log := child_log s @ [''Something's wrong!'']\<rparr>)
      | C_shell \<Rightarrow> if shell_ends e then Some (s\<lparr>child := C_exited\<rparr>) else None
      | C_exited \<Rightarrow> None)"

text \<open>One step of the parent. \<^verbatim>\<open>waitpid\<close> returns when the child has exited, or at once when there is none.\<close>

definition main :: "ns_env \<Rightarrow> ns \<Rightarrow> ns option" where
  "main e s =
     (case parent s of
        P_start \<Rightarrow> Some (s\<lparr>parent := P_clone, parent_wr := pipe_ok e,
          parent_log := parent_log s @ [ids_line ''Parent'' (euid e, egid e, uid e, gid e),
            ''Parent ['' @ fmt_5d (parent_pid e) @ ''] - start a container!'']\<rparr>)
      | P_clone \<Rightarrow> Some ((if clone_ret e > 0 then s\<lparr>child := C_start, child_wr := parent_wr s\<rparr> else s)
          \<lparr>parent := P_uid, parent_log := parent_log s @
            [''Parent ['' @ fmt_5d (parent_pid e) @ ''] - Container ['' @ fmt_5d (clone_ret e) @ '']!'']\<rparr>)
      | P_uid \<Rightarrow> Some ((set_uid_map e (clone_ret e) 0 (uid e) 1 s)\<lparr>parent := P_gid\<rparr>)
      | P_gid \<Rightarrow> Some ((set_gid_map e (clone_ret e) 0 (gid e) 1 s)\<lparr>parent := P_close\<rparr>)
      | P_close \<Rightarrow> Some (s\<lparr>parent := P_wait, parent_wr := False,
          parent_log := parent_log s @ [''Parent ['' @ fmt_5d (parent_pid e) @ ''] - user/group mapping done!'']\<rparr>)
      | P_wait \<Rightarrow>
          if child s = C_none \<or> child s = C_exited
          then Some (s\<lparr>parent := P_done, parent_log := parent_log s @ [''Parent - container stopped!'']\<rparr>)
          else None
      | P_done \<Rightarrow> None)"

text \<open>Either process moves.\<close>

inductive ns_step :: "ns_env \<Rightarrow> ns \<Rightarrow> ns \<Rightarrow> bool" for e where
  parent_moves: "main e s = Some s' \<Longrightarrow> ns_step e s s'"
| child_moves: "container_main e s = Some s' \<Longrightarrow> ns_step e s s'"

inductive_cases ns_stepE [elim!]: "ns_step e s s'"

definition ns_start :: ns where
  "ns_start = \<lparr>parent = P_start, child = C_none, parent_wr = False, child_wr = False, files = Map.empty,
     hostname = [], proc_mounted = False, parent_log = [], child_log = []\<rparr>"

text \<open>A run along a schedule that says who moves.\<close>

datatype mover = Parent | Child

fun schedule :: "mover list \<Rightarrow> ns_env \<Rightarrow> ns \<Rightarrow> ns option" where
  "schedule [] e s = Some s"
| "schedule (m # ms) e s =
     (case (case m of Parent \<Rightarrow> main e s | Child \<Rightarrow> container_main e s) of
        None \<Rightarrow> None | Some s' \<Rightarrow> schedule ms e s')"

definition ns_env0 :: ns_env where
  "ns_env0 = \<lparr>euid = 1000, egid = 1000, uid = 1000, gid = 1000, child_ids = (65534, 65534, 65534, 65534),
     parent_pid = 400, child_pid = 1, pipe_ok = True, clone_ret = 401, fopen_ok = \<lambda>_. True,
     mount_ok = True, exec_ok = True, shell_ends = True\<rparr>"

definition full_run :: "mover list" where
  "full_run = [Parent, Parent, Child, Child, Parent, Parent, Parent, Child, Child, Child, Child, Child, Parent]"

section \<open>Lemmas\<close>

text \<open>How far the two processes are.\<close>

primrec prank :: "parent_pc \<Rightarrow> nat" where
  "prank P_start = 0" | "prank P_clone = 1" | "prank P_uid = 2" | "prank P_gid = 3"
| "prank P_close = 4" | "prank P_wait = 5" | "prank P_done = 6"

primrec crank :: "child_pc \<Rightarrow> nat" where
  "crank C_none = 0" | "crank C_start = 1" | "crank C_close = 2" | "crank C_read = 3" | "crank C_host = 4"
| "crank C_mount = 5" | "crank C_exec = 6" | "crank C_shell = 7" | "crank C_exited = 8"

text \<open>What the parent's position says of the pipe and of the maps, and the child's of the parent.\<close>

definition written :: "ns_env \<Rightarrow> string \<Rightarrow> int \<Rightarrow> ns \<Rightarrow> bool" where
  "written e f i s \<longleftrightarrow> (fopen_ok e f \<longrightarrow> files s f = Some (''0 '' @ fmt_d i @ '' 1''))"

definition maps_inv :: "ns_env \<Rightarrow> ns \<Rightarrow> bool" where
  "maps_inv e s \<longleftrightarrow>
     (3 \<le> prank (parent s) \<longrightarrow> written e (uid_map_file (clone_ret e)) (uid e) s)
     \<and> (4 \<le> prank (parent s) \<longrightarrow> written e (gid_map_file (clone_ret e)) (gid e) s)"

definition pipe_inv :: "ns \<Rightarrow> bool" where
  "pipe_inv s \<longleftrightarrow> (parent_wr s \<longleftrightarrow> 1 \<le> prank (parent s) \<and> prank (parent s) \<le> 4)
     \<and> (3 \<le> crank (child s) \<longrightarrow> \<not> child_wr s)"

definition order_inv :: "ns_env \<Rightarrow> ns \<Rightarrow> bool" where
  "order_inv e s \<longleftrightarrow> (crank (child s) = 0 \<longleftrightarrow> prank (parent s) \<le> 1 \<or> clone_ret e \<le> 0)
     \<and> (4 \<le> crank (child s) \<longrightarrow> 5 \<le> prank (parent s))
     \<and> (parent s = P_done \<longrightarrow> crank (child s) = 0 \<or> child s = C_exited)"

definition host_inv :: "ns \<Rightarrow> bool" where
  "host_inv s \<longleftrightarrow> hostname s = (if 5 \<le> crank (child s) then cstr ''container'' else [])"

definition ns_inv :: "ns_env \<Rightarrow> ns \<Rightarrow> bool" where
  "ns_inv e s \<longleftrightarrow> maps_inv e s \<and> pipe_inv s \<and> order_inv e s \<and> host_inv s"

lemma map_files_distinct: "uid_map_file p \<noteq> gid_map_file p"
  by (simp add: uid_map_file_def gid_map_file_def)

lemma fmt_d_digits: "fmt_d 0 = ''0''" "fmt_d 1 = ''1''"
  by (simp_all add: fmt_eval digit_lower_eval)

lemma set_map_keeps [simp]:
  "parent_wr (set_map e f i j n s) = parent_wr s" "child_wr (set_map e f i j n s) = child_wr s"
  "child (set_map e f i j n s) = child s" "hostname (set_map e f i j n s) = hostname s"
  by (simp_all add: set_map_def)

lemma set_map_writes: "written e f i ((set_map e f 0 i 1 s)\<lparr>parent := p\<rparr>)"
  by (simp add: written_def set_map_def fmt_d_digits)

lemma set_map_other: "g \<noteq> f \<Longrightarrow> written e g j ((set_map e f 0 i 1 s)\<lparr>parent := p\<rparr>) = written e g j s"
  by (simp add: written_def set_map_def)

text \<open>What a step of either process does to the fields the invariants read.\<close>

lemma parent_step:
  assumes "main e s = Some s'" and "pipe_ok e"
  shows "prank (parent s') = Suc (prank (parent s))"
    and "parent_wr s' \<longleftrightarrow> prank (parent s) = 0 \<or> prank (parent s) \<noteq> 4 \<and> parent_wr s"
    and "child s' = (if prank (parent s) = 1 \<and> clone_ret e > 0 then C_start else child s)"
    and "prank (parent s) \<noteq> 1 \<Longrightarrow> child_wr s' = child_wr s"
    and "hostname s' = hostname s"
    and "prank (parent s) = 5 \<Longrightarrow> child s = C_none \<or> child s = C_exited"
  using assms by - (cases "parent s"; auto simp: main_def set_uid_map_def set_gid_map_def split: if_splits; fail)+

lemma child_step:
  assumes "container_main e s = Some s'"
  shows "crank (child s) < crank (child s')" "crank (child s') \<le> Suc (crank (child s)) \<or> child s = C_exec"
    and "parent s' = parent s" "parent_wr s' = parent_wr s" "files s' = files s" "0 < crank (child s)"
    and "child_wr s' \<longleftrightarrow> crank (child s) \<noteq> 2 \<and> child_wr s"
    and "hostname s' = (if child s = C_host then cstr ''container'' else hostname s)"
    and "child s = C_read \<Longrightarrow> \<not> parent_wr s"
  using assms by - (cases "child s"; auto simp: container_main_def cstr_def split: if_splits; fail)+

lemma maps_inv_parent:
  assumes "maps_inv e s" and "main e s = Some s'"
  shows "maps_inv e s'"
proof (cases "parent s")
  case P_uid
  then have "s' = (set_map e (uid_map_file (clone_ret e)) 0 (uid e) 1 s)\<lparr>parent := P_gid\<rparr>"
    using assms(2) by (simp add: main_def set_uid_map_def)
  then show ?thesis by (simp only: maps_inv_def set_map_writes) simp
next
  case P_gid
  then have "s' = (set_map e (gid_map_file (clone_ret e)) 0 (gid e) 1 s)\<lparr>parent := P_close\<rparr>"
    using assms(2) by (simp add: main_def set_gid_map_def)
  then show ?thesis
    using assms(1) P_gid set_map_other [OF map_files_distinct] by (simp add: maps_inv_def set_map_writes)
qed (use assms in \<open>auto simp: main_def maps_inv_def written_def split: if_splits\<close>)

lemma ns_inv_parent:
  assumes "ns_inv e s" and "pipe_ok e" and "main e s = Some s'"
  shows "ns_inv e s'"
proof -
  note st = parent_step [OF assms(3,2)]
  have inv: "pipe_inv s" "order_inv e s" "host_inv s" using assms(1) by (simp_all add: ns_inv_def)
  have none: "crank (child s) = 0" if "prank (parent s) = 1" using inv(2) that by (simp add: order_inv_def)
  have "pipe_inv s'" using inv(1) st(1-4) none by (cases "prank (parent s) = 1") (auto simp: pipe_inv_def)
  moreover have "order_inv e s'"
    using inv(2) st(1,3,6) none by (cases "parent s'"; cases "parent s") (auto simp: order_inv_def)
  moreover have "host_inv s'" using inv(3) st(3,5) none by (auto simp: host_inv_def)
  ultimately show ?thesis using maps_inv_parent [OF _ assms(3)] assms(1) by (simp add: ns_inv_def)
qed

lemma ns_inv_child:
  assumes "ns_inv e s" and "container_main e s = Some s'"
  shows "ns_inv e s'"
proof -
  note st = child_step [OF assms(2)]
  have inv: "maps_inv e s" "pipe_inv s" "order_inv e s" "host_inv s" using assms(1) by (simp_all add: ns_inv_def)
  have "maps_inv e s'" using inv(1) st(3,5) by (simp add: maps_inv_def written_def)
  moreover have "pipe_inv s'" using inv(2) st(1-4,7) by (cases "child s") (auto simp: pipe_inv_def)
  moreover have "order_inv e s'"
    using inv(2,3) st(1,2,3,6,9) assms(2)
    by (cases "child s") (auto simp: order_inv_def pipe_inv_def container_main_def)
  moreover have "host_inv s'" using inv(4) st(1,2,8) assms(2) by (cases "child s") (auto simp: host_inv_def container_main_def split: if_splits)
  ultimately show ?thesis by (simp add: ns_inv_def)
qed

lemma ns_inv_reachable: "(ns_step e)\<^sup>*\<^sup>* ns_start s \<Longrightarrow> pipe_ok e \<Longrightarrow> ns_inv e s"
proof (induction rule: rtranclp_induct)
  case base
  show ?case
    by (simp add: ns_inv_def maps_inv_def pipe_inv_def order_inv_def host_inv_def ns_start_def)
next
  case (step s s')
  then show ?case by (blast intro: ns_inv_parent ns_inv_child)
qed

text \<open>Every step brings one of the two processes closer to its end.\<close>

definition remaining :: "ns \<Rightarrow> nat" where
  "remaining s = 14 - (prank (parent s) + crank (child s))"

lemma rank_bounds: "prank p \<le> 6" "crank c \<le> 8"
  by (cases p; simp) (cases c; simp)

lemma step_remaining:
  assumes "ns_step e s s'" and "ns_inv e s" and "pipe_ok e"
  shows "remaining s' < remaining s"
  using assms(1)
proof
  assume m: "main e s = Some s'"
  have "crank (child s) \<le> crank (child s')"
    using parent_step(3) [OF m assms(3)] assms(2) by (auto simp: ns_inv_def order_inv_def)
  then show ?thesis
    using parent_step(1) [OF m assms(3)] rank_bounds(1) [of "parent s'"] rank_bounds(2) [of "child s'"]
    by (simp add: remaining_def)
next
  assume c: "container_main e s = Some s'"
  show ?thesis
    using child_step(1,3) [OF c] rank_bounds(1) [of "parent s'"] rank_bounds(2) [of "child s'"]
    by (simp add: remaining_def)
qed

lemma steps_remaining:
  assumes "(ns_step e ^^ n) ns_start s" and "pipe_ok e"
  shows "remaining s + n \<le> 14 \<and> ns_inv e s"
  using assms(1)
proof (induction n arbitrary: s)
  case 0
  then show ?case using ns_inv_reachable [OF rtranclp.rtrancl_refl assms(2)] by (simp add: remaining_def)
next
  case (Suc n)
  then obtain t where t: "(ns_step e ^^ n) ns_start t" "ns_step e t s" by (auto intro: ns_step.intros)
  have "ns_inv e s" using t(2) Suc.IH [OF t(1)] assms(2) by (blast intro: ns_inv_parent ns_inv_child)
  then show ?case using step_remaining [OF t(2)] Suc.IH [OF t(1)] assms(2) by fastforce
qed

text \<open>Only a state in which both processes are over, or in which the parent waits for a shell that does not exit,
  has no step.\<close>

lemma stuck_done:
  assumes "ns_inv e s" and "main e s = None" and "container_main e s = None"
  shows "parent s = P_done \<and> child s = (if clone_ret e > 0 then C_exited else C_none)
    \<or> \<not> shell_ends e \<and> parent s = P_wait \<and> child s = C_shell"
proof -
  have c: "child s = C_none \<or> child s = C_exited \<or> child s = C_read \<and> (parent_wr s \<or> child_wr s)
      \<or> child s = C_shell \<and> \<not> shell_ends e"
    using assms(3) by (cases "child s") (auto simp: container_main_def split: if_splits)
  have p: "parent s = P_done \<or> parent s = P_wait \<and> child s \<noteq> C_none \<and> child s \<noteq> C_exited"
    using assms(2) by (cases "parent s") (auto simp: main_def split: if_splits)
  have inv: "pipe_inv s" "order_inv e s" using assms(1) by (simp_all add: ns_inv_def)
  have "child s \<noteq> C_read" using inv p c by (auto simp: pipe_inv_def order_inv_def)
  then show ?thesis using p c inv(2) by (auto simp: order_inv_def)
qed

lemma schedule_steps: "schedule ms e s = Some s' \<Longrightarrow> (ns_step e ^^ length ms) s s'"
proof (induction ms arbitrary: s)
  case (Cons m ms)
  then obtain t where t: "ns_step e s t" "schedule ms e t = Some s'"
    by (cases m) (auto split: option.splits intro: ns_step.intros)
  show ?case using relpowp_Suc_I2 [OF t(1) Cons.IH [OF t(2)]] by simp
qed simp

lemma schedule_reaches: "schedule ms e s = Some s' \<Longrightarrow> (ns_step e)\<^sup>*\<^sup>* s s'"
  by (rule relpowp_imp_rtranclp) (rule schedule_steps)

section \<open>Properties\<close>

text \<open>C9. The pipe synchronises the two processes, in every interleaving: when the child is past the \<^verbatim>\<open>read\<close>,
  that is before it sets its host name, mounts \<^verbatim>\<open>/proc\<close> or starts the shell, the parent has already written
  \<^verbatim>\<open>0 uid 1\<close> and \<^verbatim>\<open>0 gid 1\<close> to the map files of the child (those it could open), and the host name is set exactly
  from that step on.\<close>

theorem ns_synchronised:
  assumes "(ns_step e)\<^sup>*\<^sup>* ns_start s" and "pipe_ok e"
    and "child s \<in> {C_host, C_mount, C_exec, C_shell, C_exited}"
  shows "(fopen_ok e (uid_map_file (clone_ret e)) \<longrightarrow>
        files s (uid_map_file (clone_ret e)) = Some (''0 '' @ fmt_d (uid e) @ '' 1''))
    \<and> (fopen_ok e (gid_map_file (clone_ret e)) \<longrightarrow>
        files s (gid_map_file (clone_ret e)) = Some (''0 '' @ fmt_d (gid e) @ '' 1''))
    \<and> (child s \<noteq> C_host \<longrightarrow> string_at (hostname s) = ''container'')"
proof -
  have inv: "maps_inv e s" "order_inv e s" "host_inv s"
    using ns_inv_reachable [OF assms(1,2)] by (simp_all add: ns_inv_def)
  have "4 \<le> crank (child s)" using assms(3) by auto
  then have "4 \<le> prank (parent s)" using inv(2) by (simp add: order_inv_def)
  then have "written e (uid_map_file (clone_ret e)) (uid e) s" "written e (gid_map_file (clone_ret e)) (gid e) s"
    using inv(1) by (simp_all add: maps_inv_def)
  moreover have "string_at (hostname s) = ''container''" if "child s \<noteq> C_host"
    using inv(3) assms(3) that string_at_cstr [of "''container''" "[]"] by (auto simp: host_inv_def)
  ultimately show ?thesis by (simp add: written_def)
qed

text \<open>C31. When there is a pipe, the program has no deadlock and no endless run of its own, in every interleaving:
  no run has more than 14 steps, and a run that cannot go on has both processes at their end, unless the shell that
  the child has become never exits, in which case the parent waits for it in \<^verbatim>\<open>waitpid\<close> with the pipe
  closed. That the shell exits is not assumed; if it does, both processes end.\<close>

theorem ns_terminates:
  assumes "pipe_ok e" and "(ns_step e ^^ n) ns_start s"
  shows "n \<le> 14 \<and> ((\<exists>s'. ns_step e s s')
    \<or> parent s = P_done \<and> child s = (if clone_ret e > 0 then C_exited else C_none)
    \<or> \<not> shell_ends e \<and> parent s = P_wait \<and> child s = C_shell \<and> \<not> parent_wr s)"
proof -
  have r: "remaining s + n \<le> 14" "ns_inv e s" using steps_remaining [OF assms(2,1)] by simp_all
  show ?thesis
  proof (cases "\<exists>s'. ns_step e s s'")
    case False
    then have "main e s = None" "container_main e s = None" using ns_step.intros by (metis option.exhaust)+
    moreover have "parent s = P_wait \<longrightarrow> \<not> parent_wr s" using r(2) by (simp add: ns_inv_def pipe_inv_def)
    ultimately show ?thesis using stuck_done [OF r(2)] r(1) by auto
  qed (use r(1) in simp)
qed

text \<open>Without a pipe nothing synchronises the two: \<^verbatim>\<open>pipefd\<close> keeps its zeros, the \<^verbatim>\<open>read\<close> of the closed standard
  input fails at once, and the child runs its shell before any map is written.\<close>

theorem ns_no_pipe_races:
  assumes "\<not> pipe_ok e" and "clone_ret e > 0" and "exec_ok e"
  shows "\<exists>s. (ns_step e)\<^sup>*\<^sup>* ns_start s \<and> child s = C_shell \<and> files s = Map.empty"
proof -
  let ?ms = "[Parent, Parent, Child, Child, Child, Child, Child, Child]"
  have "\<exists>s. schedule ?ms e ns_start = Some s \<and> child s = C_shell \<and> files s = Map.empty"
    using assms by (simp add: main_def container_main_def ns_start_def)
  then show ?thesis using schedule_reaches by blast
qed

section \<open>Witnesses\<close>

lemma full_run_ends: "\<exists>s. schedule full_run ns_env0 ns_start = Some s \<and> child s = C_exited"
  by (simp add: full_run_def main_def container_main_def ns_start_def ns_env0_def set_uid_map_def set_gid_map_def set_map_def)

theorem ns_synchronised_witness:
  "\<exists>s. (ns_step ns_env0)\<^sup>*\<^sup>* ns_start s \<and> files s (uid_map_file 401) = Some (''0 '' @ fmt_d 1000 @ '' 1'')
    \<and> string_at (hostname s) = ''container''"
proof -
  obtain s where s: "(ns_step ns_env0)\<^sup>*\<^sup>* ns_start s" "child s = C_exited"
    using full_run_ends schedule_reaches by blast
  show ?thesis using ns_synchronised [OF s(1)] s by (auto simp: ns_env0_def)
qed

theorem ns_terminates_witness:
  "\<exists>s. (ns_step ns_env0 ^^ 13) ns_start s \<and> (13 :: nat) \<le> 14
    \<and> ((\<exists>s'. ns_step ns_env0 s s') \<or> parent s = P_done \<and> child s = C_exited)"
proof -
  obtain s where "schedule full_run ns_env0 ns_start = Some s" using full_run_ends by blast
  then have "(ns_step ns_env0 ^^ length full_run) ns_start s" by (rule schedule_steps)
  moreover have "length full_run = 13" by (simp add: full_run_def)
  ultimately have s: "(ns_step ns_env0 ^^ 13) ns_start s" by (simp only:)
  have e: "pipe_ok ns_env0" "clone_ret ns_env0 > 0" "shell_ends ns_env0" by (simp_all add: ns_env0_def)
  show ?thesis using s ns_terminates [OF e(1) s] e(2,3) by (intro exI [of _ s]) (simp del: relpowp.simps)
qed

end
