(* ===== verification/Container.thy ===== *)
theory Container
  imports Ns
begin

text \<open>
  \<^verbatim>\<open>src/code/namespace/test/ns.c\<close>: a shell in a container, in the two versions the file holds: the one that is
  compiled (new UTS, IPC and PID namespaces only) and the one after \<^verbatim>\<open>#else\<close>, which also has a mount
  namespace and a root file system of its own (suffix \<open>_rootfs\<close> here). The parent does nothing between
  \<^verbatim>\<open>clone\<close> and \<^verbatim>\<open>waitpid\<close>, so parent and child run one after the other. What can be seen of the
  namespaces is modelled: the mount tables and the host names on both sides.
\<close>

section \<open>The system\<close>

datatype clone_flag = CLONE_NEWUTS | CLONE_NEWIPC | CLONE_NEWPID | CLONE_NEWNS

datatype console = Out string | Perror string int   \<comment> \<open>a line, and a tag with its error number\<close>

record mount_entry =
  m_source :: string
  m_target :: string
  m_type :: string
  m_bind :: bool

record world =
  host_mounts :: "mount_entry list"
  host_name :: "u8 list"
  own_mounts :: "mount_entry list option"    \<comment> \<open>the child's, when it has a mount namespace of its own\<close>
  own_name :: "u8 list option"               \<comment> \<open>the child's, when it has a UTS namespace of its own\<close>
  root_dir :: string                         \<comment> \<open>the child's root and working directory\<close>
  work_dir :: string
  console :: "console list"

text \<open>The answers of the system: the error numbers of \<^verbatim>\<open>mount\<close> per target, \<^verbatim>\<open>chdir\<close>, \<^verbatim>\<open>chroot\<close> and \<^verbatim>\<open>execv\<close> (0 for
  success), what \<^verbatim>\<open>clone\<close> returns, whether mounts propagate out of a new mount namespace (the setting of
  the host's mount points), and what the shell does before it exits.\<close>

record world_env =
  w_parent_pid :: int
  w_child_pid :: int
  w_clone_ret :: int
  mount_err :: "string \<Rightarrow> int"
  chdir_err :: int
  chroot_err :: int
  exec_err :: int
  propagates :: bool
  shell :: "world \<Rightarrow> world"

definition say :: "console \<Rightarrow> world \<Rightarrow> world" where
  "say l s = s\<lparr>console := console s @ [l]\<rparr>"

definition do_mount :: "world_env \<Rightarrow> mount_entry \<Rightarrow> world \<Rightarrow> int \<times> world" where
  "do_mount e m s =
     (if mount_err e (m_target m) \<noteq> 0 then (mount_err e (m_target m), s)
      else case own_mounts s of
             None \<Rightarrow> (0, s\<lparr>host_mounts := host_mounts s @ [m]\<rparr>)
           | Some ms \<Rightarrow> (0, s\<lparr>own_mounts := Some (ms @ [m]),
               host_mounts := (if propagates e then host_mounts s @ [m] else host_mounts s)\<rparr>))"

definition sethostname :: "u8 list \<Rightarrow> world \<Rightarrow> world" where
  "sethostname n s = (if own_name s = None then s\<lparr>host_name := n\<rparr> else s\<lparr>own_name := Some n\<rparr>)"

text \<open>\<^verbatim>\<open>clone\<close> gives the child its copies; they go when the child exits.\<close>

definition enter :: "clone_flag list \<Rightarrow> world \<Rightarrow> world" where
  "enter flags s = s\<lparr>own_mounts := (if CLONE_NEWNS \<in> set flags then Some (host_mounts s) else None),
     own_name := (if CLONE_NEWUTS \<in> set flags then Some (host_name s) else None), root_dir := ''/'', work_dir := ''.''\<rparr>"

definition leave :: "world \<Rightarrow> world" where
  "leave s = s\<lparr>own_mounts := None, own_name := None\<rparr>"

text \<open>\<^verbatim>\<open>execv\<close>: the shell takes over and the child ends with it, or \<^verbatim>\<open>execv\<close> returns and \<open>after\<close> is what follows.\<close>

definition do_exec :: "world_env \<Rightarrow> (world \<Rightarrow> world) \<Rightarrow> world \<Rightarrow> world" where
  "do_exec e after s = (if exec_err e = 0 then shell e s else after s)"

section \<open>The version that is compiled\<close>

definition inside_line :: "world_env \<Rightarrow> console" where
  "inside_line e = Out (''Container ['' @ fmt_5d (w_child_pid e) @ ''] - inside the container!'')"

definition proc_mount :: mount_entry where
  "proc_mount = \<lparr>m_source = ''proc'', m_target = ''/proc'', m_type = ''proc'', m_bind = False\<rparr>"

definition ns_container_main :: "world_env \<Rightarrow> world \<Rightarrow> world" where
  "ns_container_main e s =
     (let s1 = say (inside_line e) (say (Out ''Container - inside the container!'') s);
          s2 = sethostname (take 10 (cstr ''container'')) s1;
          s3 = snd (do_mount e proc_mount s2)
      in do_exec e (say (Out ''Something's wrong!'')) s3)"

text \<open>\<^verbatim>\<open>main\<close> of both versions, but for the flags and the function the child runs.\<close>

definition ns_parent :: "clone_flag list \<Rightarrow> (world_env \<Rightarrow> world \<Rightarrow> world) \<Rightarrow> world_env \<Rightarrow> world \<Rightarrow> int \<times> world" where
  "ns_parent flags fn e s =
     (let s1 = say (Out (''Parent ['' @ fmt_5d (w_parent_pid e) @ ''] - start a container!'')) s;
          s2 = (if w_clone_ret e > 0 then leave (fn e (enter flags s1)) else s1)
      in (0, say (Out ''Parent - container stopped!'') s2))"

definition ns_main :: "world_env \<Rightarrow> world \<Rightarrow> int \<times> world" where
  "ns_main = ns_parent [CLONE_NEWUTS, CLONE_NEWIPC, CLONE_NEWPID] ns_container_main"

section \<open>The version with a root file system\<close>

text \<open>A mount whose failure is only reported, and mounts of which the first failure ends the sequence.\<close>

definition mount_or_perror :: "world_env \<Rightarrow> string \<times> mount_entry \<Rightarrow> world \<Rightarrow> world" where
  "mount_or_perror e = (\<lambda>(tag, m) s. let (r, s1) = do_mount e m s in if r \<noteq> 0 then say (Perror tag r) s1 else s1)"

fun mount_all :: "world_env \<Rightarrow> mount_entry list \<Rightarrow> world \<Rightarrow> int \<times> world" where
  "mount_all e [] s = (0, s)"
| "mount_all e (m # ms) s = (let (r, s1) = do_mount e m s in if r \<noteq> 0 then (r, s1) else mount_all e ms s1)"

definition pseudo_mounts :: "(string \<times> mount_entry) list" where
  "pseudo_mounts =
     [(''proc'', \<lparr>m_source = ''proc'', m_target = ''rootfs/proc'', m_type = ''proc'', m_bind = False\<rparr>),
      (''sys'', \<lparr>m_source = ''sysfs'', m_target = ''rootfs/sys'', m_type = ''sysfs'', m_bind = False\<rparr>),
      (''tmp'', \<lparr>m_source = ''none'', m_target = ''rootfs/tmp'', m_type = ''tmpfs'', m_bind = False\<rparr>),
      (''dev'', \<lparr>m_source = ''udev'', m_target = ''rootfs/dev'', m_type = ''devtmpfs'', m_bind = False\<rparr>),
      (''dev/pts'', \<lparr>m_source = ''devpts'', m_target = ''rootfs/dev/pts'', m_type = ''devpts'', m_bind = False\<rparr>),
      (''dev/shm'', \<lparr>m_source = ''shm'', m_target = ''rootfs/dev/shm'', m_type = ''tmpfs'', m_bind = False\<rparr>),
      (''run'', \<lparr>m_source = ''tmpfs'', m_target = ''rootfs/run'', m_type = ''tmpfs'', m_bind = False\<rparr>)]"

definition conf_mounts :: "mount_entry list" where
  "conf_mounts =
     [\<lparr>m_source = ''conf/hosts'', m_target = ''rootfs/etc/hosts'', m_type = ''none'', m_bind = True\<rparr>,
      \<lparr>m_source = ''conf/hostname'', m_target = ''rootfs/etc/hostname'', m_type = ''none'', m_bind = True\<rparr>,
      \<lparr>m_source = ''conf/resolv.conf'', m_target = ''rootfs/etc/resolv.conf'', m_type = ''none'', m_bind = True\<rparr>]"

definition mnt_mount :: mount_entry where
  "mnt_mount = \<lparr>m_source = ''/tmp/t1'', m_target = ''rootfs/mnt'', m_type = ''none'', m_bind = True\<rparr>"

definition mount_conf :: "world_env \<Rightarrow> world \<Rightarrow> world" where
  "mount_conf e s = (let (r, s1) = mount_all e conf_mounts s in if r \<noteq> 0 then say (Perror ''conf'' r) s1 else s1)"

definition change_root :: "world_env \<Rightarrow> world \<Rightarrow> world" where
  "change_root e s =
     (if chdir_err e \<noteq> 0 then say (Perror ''chdir/chroot'' (chdir_err e)) s
      else
        let s1 = s\<lparr>work_dir := ''./rootfs''\<rparr>
        in if chroot_err e \<noteq> 0 then say (Perror ''chdir/chroot'' (chroot_err e)) s1
           else s1\<lparr>root_dir := work_dir s1\<rparr>)"

text \<open>The child up to the \<^verbatim>\<open>execv\<close>, and all of it.\<close>

definition rootfs_setup :: "world_env \<Rightarrow> world \<Rightarrow> world" where
  "rootfs_setup e s =
     (let s1 = sethostname (take 10 (cstr ''container'')) (say (inside_line e) s);
          s2 = fold (mount_or_perror e) pseudo_mounts s1;
          s3 = mount_conf e s2;
          s4 = mount_or_perror e (''mnt'', mnt_mount) s3
      in change_root e s4)"

definition ns_container_main_rootfs :: "world_env \<Rightarrow> world \<Rightarrow> world" where
  "ns_container_main_rootfs e s =
     do_exec e (\<lambda>s. say (Out ''Something's wrong!'') (say (Perror ''exec'' (exec_err e)) s)) (rootfs_setup e s)"


section \<open>Specification\<close>



section \<open>Fixtures\<close>

definition world0 :: world where
  "world0 = \<lparr>host_mounts = [], host_name = cstr ''host'', own_mounts = None, own_name = None, root_dir = ''/'',
     work_dir = ''.'', console = []\<rparr>"

definition world_env0 :: world_env where
  "world_env0 = \<lparr>w_parent_pid = 400, w_child_pid = 1, w_clone_ret = 401, mount_err = \<lambda>_. 0, chdir_err = 0, chroot_err = 0,
     exec_err = 0, propagates = False, shell = \<lambda>s. s\<rparr>"


section \<open>Lemmas\<close>


lemma say_keeps [simp]:
  "host_mounts (say l s) = host_mounts s" "host_name (say l s) = host_name s" "own_mounts (say l s) = own_mounts s"
  "own_name (say l s) = own_name s" "root_dir (say l s) = root_dir s" "work_dir (say l s) = work_dir s"
  "console (say l s) = console s @ [l]"
  by (simp_all add: say_def)














section \<open>Properties\<close>


text \<open>C30. The container that is compiled is not: it has no mount namespace, so the \<^verbatim>\<open>/proc\<close> it mounts for itself is
  mounted over the host's and stays there when the container has stopped. The host name is isolated.\<close>

theorem container_mounts_over_host:
  assumes "w_clone_ret e > 0" and "mount_err e ''/proc'' = 0"
    and "\<forall>w. own_name w \<noteq> None \<longrightarrow> host_mounts (shell e w) = host_mounts w \<and> host_name (shell e w) = host_name w"
  shows "\<exists>s'. ns_main e s = (0, s') \<and> host_mounts s' = host_mounts s @ [proc_mount] \<and> host_name s' = host_name s"
proof -
  define s1 where "s1 = enter [CLONE_NEWUTS, CLONE_NEWIPC, CLONE_NEWPID]
    (say (Out (''Parent ['' @ fmt_5d (w_parent_pid e) @ ''] - start a container!'')) s)"
  have "host_mounts (ns_container_main e s1) = host_mounts s @ [proc_mount] \<and> host_name (ns_container_main e s1) = host_name s"
    using assms(2,3) by (simp add: ns_container_main_def do_exec_def do_mount_def sethostname_def proc_mount_def s1_def
        enter_def Let_def)
  then show ?thesis using assms(1) by (simp add: ns_main_def ns_parent_def Let_def leave_def s1_def)
qed

text \<open>When \<^verbatim>\<open>chdir\<close> or \<^verbatim>\<open>chroot\<close> fails the message is printed, and the shell starts all the same, in the host's root.\<close>

theorem rootfs_chroot_ignored:
  assumes "chdir_err e \<noteq> 0 \<or> chroot_err e \<noteq> 0" and "exec_err e = 0" and "root_dir s = ''/''"
  shows "\<exists>w. ns_container_main_rootfs e s = shell e w \<and> root_dir w = ''/'' \<and> (\<exists>n. last (console w) = Perror ''chdir/chroot'' n)"
proof -
  have mount: "root_dir (mount_or_perror e tm s) = root_dir s" for tm s
    by (cases tm) (auto simp: mount_or_perror_def do_mount_def split: option.split)
  have all: "root_dir (snd (mount_all e xs s)) = root_dir s" for xs s
    by (induction xs arbitrary: s) (auto simp: do_mount_def split: option.split)
  have conf: "root_dir (mount_conf e s) = root_dir s" for s
    using all [of conf_mounts s] by (auto simp: mount_conf_def split: prod.split)
  have folds: "root_dir (fold (mount_or_perror e) xs s) = root_dir s" for xs s
    by (induction xs arbitrary: s) (simp_all add: mount)
  have "root_dir (mount_or_perror e (''mnt'', mnt_mount) (mount_conf e (fold (mount_or_perror e) pseudo_mounts
      (sethostname (take 10 (cstr ''container'')) (say (inside_line e) s))))) = ''/''"
    using assms(3) by (simp add: mount conf folds sethostname_def)
  then have "\<exists>n. last (console (rootfs_setup e s)) = Perror ''chdir/chroot'' n \<and> root_dir (rootfs_setup e s) = ''/''"
    using assms(1) by (auto simp: rootfs_setup_def Let_def change_root_def)
  then show ?thesis using assms(2) by (auto simp: ns_container_main_rootfs_def do_exec_def)
qed

section \<open>Witnesses\<close>


theorem container_mounts_over_host_witness:
  "\<exists>s'. ns_main world_env0 world0 = (0, s') \<and> host_mounts s' = [proc_mount] \<and> host_name s' = cstr ''host''"
  using container_mounts_over_host [of world_env0 world0] by (auto simp: world_env0_def world0_def)

end
