(* ===== verification/Vfio.thy ===== *)
theory Vfio
  imports Cformat
begin

text \<open>
  \<^verbatim>\<open>src/test/vfio_test/vfio_test.c\<close>: a user program that gives a PCI device three windows of memory through
  VFIO and increments the first bytes of its register window. The model is the sequence of system calls with their
  arguments, the text printed, and the bytes of the register window; the results of the calls are
  parameters. The blocks under \<^verbatim>\<open>DMA_DRIVER\<close> and \<^verbatim>\<open>IRQ\<close>, which are switched off at the top of the file, and the
  interrupt helpers they call are in \<open>Vfiodma\<close>.
\<close>

section \<open>The program\<close>

record dma_map =
  vaddr :: u64
  map_len :: u64
  iova :: u64
  map_flags :: u32

record irq_set =
  irq_argsz :: nat
  irq_flags :: u32
  irq_index :: u32
  irq_start :: u32
  irq_count :: u32
  irq_data :: "int list"    \<comment> \<open>the descriptors after the fixed part\<close>

datatype call =
    Open string
  | Get_api_version
  | Check_extension
  | Group_get_status
  | Group_set_container
  | Set_iommu
  | Iommu_get_info
  | Mmap_anon u64
  | Map_dma dma_map
  | Group_get_device_fd string
  | Device_get_info
  | Device_get_region_info nat
  | Mmap_region u64 u64
  | Device_get_irq_info u32
  | Device_set_irqs irq_set
  | Eventfd
  | Read_eventfd int
  | Close int
  | Device_reset

record vfio =
  calls :: "call list"
  bar :: "u8 list"          \<comment> \<open>the pages of region 0\<close>
  out :: string

text \<open>The answers of the kernel. \<^verbatim>\<open>anon_map\<close> is what the three anonymous \<^verbatim>\<open>mmap\<close> calls return, \<^verbatim>\<open>bar_map\<close> the
  address of the device mapping, or \<^verbatim>\<open>MAP_FAILED\<close>.\<close>

record vfio_env =
  api_version :: int
  extension :: int
  group_flags :: u32
  anon_map :: "nat \<Rightarrow> u64"
  map_ret :: "dma_map \<Rightarrow> int"
  device_fd :: int
  info_ret :: int
  num_regions :: u32
  region_ret :: int
  region_size :: u64
  region_offset :: u64
  region_flags :: u32
  bar_map :: u64

abbreviation MAP_FAILED :: u64 where "MAP_FAILED \<equiv> - 1"
abbreviation VFIO_API_VERSION :: int where "VFIO_API_VERSION \<equiv> 0"
abbreviation VFIO_GROUP_FLAGS_VIABLE :: u32 where "VFIO_GROUP_FLAGS_VIABLE \<equiv> 1"
abbreviation VFIO_DMA_MAP_FLAG_READ :: u32 where "VFIO_DMA_MAP_FLAG_READ \<equiv> 1"
abbreviation VFIO_DMA_MAP_FLAG_WRITE :: u32 where "VFIO_DMA_MAP_FLAG_WRITE \<equiv> 2"

definition VFIO_CONTAINER :: string where "VFIO_CONTAINER = ''/dev/vfio/vfio''"
definition VFIO_DMA_MAP_FLAG_EXEC :: u32 where "VFIO_DMA_MAP_FLAG_EXEC = 4"

definition newline :: string where "newline = [CHR 0x0A]"

definition say :: "string \<Rightarrow> vfio \<Rightarrow> vfio" where
  "say t s = s\<lparr>out := out s @ t\<rparr>"

definition issue :: "call \<Rightarrow> vfio \<Rightarrow> vfio" where
  "issue c s = s\<lparr>calls := calls s @ [c]\<rparr>"

text \<open>The loops of \<^verbatim>\<open>dump_hex\<close> and \<^verbatim>\<open>modify_hex\<close> from index \<open>i\<close> on, over the mapping at \<open>buf\<close>.\<close>

definition at :: "u64 \<Rightarrow> nat \<Rightarrow> vfio \<Rightarrow> crash + u8" where
  "at buf i s = (if buf = MAP_FAILED \<or> i \<ge> length (bar s) then Inl Bad_access else Inr (bar s ! i))"

function dump_from :: "u64 \<Rightarrow> nat \<Rightarrow> nat \<Rightarrow> vfio \<Rightarrow> crash + vfio" where
  "dump_from buf i len s =
     (if i < len then
        andThen (at buf i s) (\<lambda>b.
          dump_from buf (Suc i) len
            (say (fmt_x 2 (unat b) @ '' '' @ (if (i + 1) mod 8 = 0 then newline else '''')) s))
      else Inr s)"
  by pat_completeness auto
termination
  by (relation "measure (\<lambda>(b, i, n, s). n - i)") auto

declare dump_from.simps [simp del]

definition dump_hex :: "u64 \<Rightarrow> nat \<Rightarrow> vfio \<Rightarrow> crash + vfio" where
  "dump_hex buf len s = andThen (dump_from buf 0 len s) (\<lambda>s1. Inr (say newline s1))"

function modify_from :: "u64 \<Rightarrow> nat \<Rightarrow> nat \<Rightarrow> vfio \<Rightarrow> crash + vfio" where
  "modify_from buf i len s =
     (if i < len then
        andThen (at buf i s) (\<lambda>b. modify_from buf (Suc i) len (s\<lparr>bar := (bar s)[i := b + 1]\<rparr>))
      else Inr s)"
  by pat_completeness auto
termination
  by (relation "measure (\<lambda>(b, i, n, s). n - i)") auto

declare modify_from.simps [simp del]

definition modify_hex :: "u64 \<Rightarrow> nat \<Rightarrow> vfio \<Rightarrow> crash + vfio" where
  "modify_hex buf len s = modify_from buf 0 len s"

text \<open>The three windows: source, destination and instructions.\<close>

definition size_to_map :: u64 where "size_to_map = 4 * 1024"

definition map_all_flags :: u32 where
  "map_all_flags = VFIO_DMA_MAP_FLAG_READ OR VFIO_DMA_MAP_FLAG_WRITE OR VFIO_DMA_MAP_FLAG_EXEC"

definition dma_map_src :: "vfio_env \<Rightarrow> dma_map" where
  "dma_map_src e = \<lparr>vaddr = anon_map e 0, map_len = size_to_map, iova = 0, map_flags = map_all_flags\<rparr>"

definition dma_map_dst :: "vfio_env \<Rightarrow> dma_map" where
  "dma_map_dst e = \<lparr>vaddr = anon_map e 1, map_len = size_to_map, iova = map_len (dma_map_src e), map_flags = map_all_flags\<rparr>"

definition dma_map_inst :: "vfio_env \<Rightarrow> dma_map" where
  "dma_map_inst e = \<lparr>vaddr = anon_map e 2, map_len = size_to_map,
     iova = map_len (dma_map_src e) + map_len (dma_map_dst e), map_flags = map_all_flags\<rparr>"

definition quit :: "int \<Rightarrow> string \<Rightarrow> vfio \<Rightarrow> crash + int \<times> vfio" where
  "quit r t s = Inr (r, say (t @ newline) s)"

text \<open>The part of \<^verbatim>\<open>main\<close> that works on the device, from \<^verbatim>\<open>VFIO_GROUP_GET_DEVICE_FD\<close> on. What follows the second dump
  depends on \<^verbatim>\<open>DMA_DRIVER\<close> and is an argument: as the file stands, it is only \<open>finish\<close>.\<close>

definition finish :: "vfio \<Rightarrow> crash + int \<times> vfio" where
  "finish s = Inr (0, issue Device_reset s)"

definition use_device_then :: "(vfio \<Rightarrow> crash + int \<times> vfio) \<Rightarrow> vfio_env \<Rightarrow> string \<Rightarrow> vfio \<Rightarrow> crash + int \<times> vfio" where
  "use_device_then rest e device_id s =
     (let s1 = say (''=== VFIO device file descriptor '' @ fmt_d (device_fd e) @ '' ==='' @ newline)
                 (issue (Group_get_device_fd device_id) s);
          s2 = issue Device_get_info s1
      in if info_ret e \<noteq> 0 then quit 1 ''Could not get VFIO device'' s2
         else
           let s3 = issue (Device_get_region_info 0)
                      (say (''Device has '' @ fmt_d (sint (num_regions e)) @ '' region(s):'' @ newline) s2)
           in if region_ret e \<noteq> 0 then quit 1 (''Couldn't get region '' @ fmt_d 0 @ '' info'') s3
              else
                let s4 = say (''- Region '' @ fmt_d 0 @ '': size=0x'' @ fmt_x 0 (unat (region_size e)) @
                           '' offset=0x'' @ fmt_x 0 (unat (region_offset e)) @
                           '' flags=0x'' @ fmt_x 0 (unat (region_flags e)) @ newline) s3;
                    base_regs = bar_map e;
                    s5 = issue (Mmap_region (region_size e) (region_offset e)) s4;
                    s6 = (if base_regs \<noteq> MAP_FAILED
                          then say (''  - Successful MMAP to address 0x'' @ fmt_x 0 (unat base_regs) @ newline) s5 else s5);
                    s7 = say (''do mmio opt:'' @ newline) s6
                in andThen (dump_hex base_regs 32 s7) (\<lambda>s8.
                   andThen (modify_hex base_regs 32 s8) (\<lambda>s9.
                   andThen (dump_hex base_regs 32 s9) rest)))"

definition use_device :: "vfio_env \<Rightarrow> string \<Rightarrow> vfio \<Rightarrow> crash + int \<times> vfio" where
  "use_device = use_device_then finish"

definition vfio_main_then ::
  "(vfio \<Rightarrow> crash + int \<times> vfio) \<Rightarrow> vfio_env \<Rightarrow> string list \<Rightarrow> vfio \<Rightarrow> crash + int \<times> vfio" where
  "vfio_main_then rest e argv s =
     (if length argv \<noteq> 3 then quit 2 ''Usage: ./vfio-dt /dev/vfio/${group_id} device_id'' s
      else
        let s1 = issue Get_api_version (issue (Open VFIO_CONTAINER) s)
        in if api_version e \<noteq> VFIO_API_VERSION then quit 1 ''Unknown API version'' s1
           else
             let s2 = issue Check_extension s1
             in if extension e = 0 then quit 1 ''Doesn't support the IOMMU driver we want'' s2
                else
                  let s3 = issue Group_get_status (issue (Open (argv ! 1)) s2)
                  in if group_flags e AND VFIO_GROUP_FLAGS_VIABLE = 0
                     then quit 1 ''Group is not viable (not all devices bound for vfio)'' s3
                     else
                       let s4 = fold issue [Group_set_container, Set_iommu, Iommu_get_info,
                                  Mmap_anon size_to_map, Mmap_anon size_to_map, Mmap_anon size_to_map,
                                  Map_dma (dma_map_src e), Map_dma (dma_map_dst e), Map_dma (dma_map_inst e)] s3;
                           ret = map_ret e (dma_map_src e) OR map_ret e (dma_map_dst e) OR map_ret e (dma_map_inst e)
                       in if ret \<noteq> 0 then quit 1 ''Could not map DMA memory'' s4
                          else use_device_then rest e (argv ! 2) s4)"

definition vfio_main :: "vfio_env \<Rightarrow> string list \<Rightarrow> vfio \<Rightarrow> crash + int \<times> vfio" where
  "vfio_main = vfio_main_then finish"

section \<open>Specification\<close>

text \<open>The checks of the program all pass.\<close>

definition checks_pass :: "vfio_env \<Rightarrow> bool" where
  "checks_pass e \<longleftrightarrow> api_version e = 0 \<and> extension e \<noteq> 0 \<and> group_flags e AND 1 \<noteq> 0
     \<and> map_ret e (dma_map_src e) = 0 \<and> map_ret e (dma_map_dst e) = 0 \<and> map_ret e (dma_map_inst e) = 0
     \<and> info_ret e = 0 \<and> region_ret e = 0"

definition windows :: "call list \<Rightarrow> dma_map list" where
  "windows cs = concat (map (\<lambda>c. case c of Map_dma m \<Rightarrow> [m] | _ \<Rightarrow> []) cs)"

text \<open>Windows in order and without overlap in the device's address space.\<close>

definition separate :: "dma_map list \<Rightarrow> bool" where
  "separate ms \<longleftrightarrow> sorted_wrt (\<lambda>a b. unat (iova a) + unat (map_len a) \<le> unat (iova b)) ms
     \<and> (\<forall>m \<in> set ms. unat (iova m) mod 4096 = 0 \<and> unat (map_len m) = 4096)"

text \<open>The text of a dump.\<close>

definition dump_text :: "u8 list \<Rightarrow> string" where
  "dump_text bs = concat (map (\<lambda>i. fmt_x 2 (unat (bs ! i)) @ '' '' @ (if (i + 1) mod 8 = 0 then newline else ''''))
     [0..<length bs]) @ newline"

definition vfio0 :: vfio where
  "vfio0 = \<lparr>calls = [], bar = replicate 4096 0xFF, out = ''''\<rparr>"

definition vfio_env0 :: vfio_env where
  "vfio_env0 = \<lparr>api_version = 0, extension = 1, group_flags = 1, anon_map = \<lambda>i. of_nat (0x10000 * Suc i), map_ret = \<lambda>_. 0,
     device_fd = 7, info_ret = 0, num_regions = 9, region_ret = 0, region_size = 0x1000, region_offset = 0,
     region_flags = 7, bar_map = 0x70000\<rparr>"

text \<open>The part of the checks that comes before the device, and the state when it is reached.\<close>

definition setup_ok :: "vfio_env \<Rightarrow> bool" where
  "setup_ok e \<longleftrightarrow> api_version e = 0 \<and> extension e \<noteq> 0 \<and> group_flags e AND 1 \<noteq> 0
     \<and> map_ret e (dma_map_src e) = 0 \<and> map_ret e (dma_map_dst e) = 0 \<and> map_ret e (dma_map_inst e) = 0"

definition mapped :: "vfio_env \<Rightarrow> string list \<Rightarrow> vfio \<Rightarrow> vfio" where
  "mapped e argv s = fold issue [Open VFIO_CONTAINER, Get_api_version, Check_extension, Open (argv ! 1), Group_get_status,
     Group_set_container, Set_iommu, Iommu_get_info, Mmap_anon size_to_map, Mmap_anon size_to_map, Mmap_anon size_to_map,
     Map_dma (dma_map_src e), Map_dma (dma_map_dst e), Map_dma (dma_map_inst e)] s"

section \<open>Lemmas\<close>

lemma record_keeps [simp]:
  "bar (say t s) = bar s" "calls (say t s) = calls s" "bar (issue c s) = bar s" "calls (issue c s) = calls s @ [c]"
  "out (issue c s) = out s" "out (say t s) = out s @ t"
  by (simp_all add: say_def issue_def)

lemma dump_from_text:
  assumes "buf \<noteq> MAP_FAILED" and "len \<le> length (bar s)" and "i \<le> len"
  shows "dump_from buf i len s = Inr (say (concat (map (\<lambda>i. fmt_x 2 (unat (bar s ! i)) @ '' '' @
      (if (i + 1) mod 8 = 0 then newline else '''')) [i..<len])) s)"
  using assms(2,3)
proof (induction "len - i" arbitrary: i s)
  case 0
  then show ?case by (simp add: dump_from.simps [of buf i] say_def)
next
  case (Suc n)
  then have i: "i < len" by simp
  let ?t = "fmt_x 2 (unat (bar s ! i)) @ '' '' @ (if (i + 1) mod 8 = 0 then newline else '''')"
  have "dump_from buf i len s = dump_from buf (Suc i) len (say ?t s)"
    using assms(1) Suc.prems i by (simp add: dump_from.simps [of buf i] at_def)
  also have "\<dots> = Inr (say (concat (map (\<lambda>i. fmt_x 2 (unat (bar s ! i)) @ '' '' @
      (if (i + 1) mod 8 = 0 then newline else '''')) [Suc i..<len])) (say ?t s))"
    using Suc.hyps(1) [of "Suc i" "say ?t s"] Suc.hyps(2) Suc.prems i by simp
  finally show ?case using i by (simp add: upt_conv_Cons say_def)
qed

lemma dump_hex_text:
  assumes "buf \<noteq> MAP_FAILED" and "len \<le> length (bar s)"
  shows "dump_hex buf len s = Inr (say (dump_text (take len (bar s))) s)"
proof -
  have "concat (map (\<lambda>i. fmt_x 2 (unat (bar s ! i)) @ '' '' @ (if (i + 1) mod 8 = 0 then newline else '''')) [0..<len]) @ newline
      = dump_text (take len (bar s))"
    using assms(2) by (auto simp: dump_text_def min_def intro!: arg_cong [of _ _ concat])
  then show ?thesis using dump_from_text [OF assms(1,2), of 0] by (simp add: dump_hex_def say_def)
qed

lemma modify_from_adds:
  assumes "buf \<noteq> MAP_FAILED" and "len \<le> length (bar s)" and "i \<le> len"
  shows "modify_from buf i len s =
    Inr (s\<lparr>bar := take i (bar s) @ map (\<lambda>b. b + 1) (take (len - i) (drop i (bar s))) @ drop len (bar s)\<rparr>)"
  using assms(2,3)
proof (induction "len - i" arbitrary: i s)
  case 0
  then show ?case by (simp add: modify_from.simps [of buf i])
next
  case (Suc n)
  then have i: "i < len" "i < length (bar s)" by simp_all
  have cut: "take (len - i) (drop i (bar s)) = bar s ! i # take (len - Suc i) (drop (Suc i) (bar s))"
    using i by (metis Cons_nth_drop_Suc Suc_diff_Suc take_Suc_Cons)
  let ?s = "s\<lparr>bar := (bar s)[i := bar s ! i + 1]\<rparr>"
  have "modify_from buf i len s = modify_from buf (Suc i) len ?s"
    using assms(1) Suc.prems i by (simp add: modify_from.simps [of buf i] at_def)
  also have "\<dots> = Inr (?s\<lparr>bar := take (Suc i) (bar ?s) @ map (\<lambda>b. b + 1) (take (len - Suc i) (drop (Suc i) (bar ?s))) @ drop len (bar ?s)\<rparr>)"
    using Suc.hyps(2) Suc.prems i by (intro Suc.hyps(1)) simp_all
  also have "take (Suc i) (bar ?s) = take i (bar s) @ [bar s ! i + 1]" using i by (simp add: take_Suc_conv_app_nth)
  also have "drop (Suc i) (bar ?s) = drop (Suc i) (bar s)" by simp
  also have "drop len (bar ?s) = drop len (bar s)" using i by simp
  finally show ?case using cut by simp
qed

lemma modify_hex_adds:
  assumes "buf \<noteq> MAP_FAILED" and "len \<le> length (bar s)"
  shows "modify_hex buf len s = Inr (s\<lparr>bar := map (\<lambda>b. b + 1) (take len (bar s)) @ drop len (bar s)\<rparr>)"
  using modify_from_adds [OF assms, of 0] by (simp add: modify_hex_def)

lemma use_device_then_ok:
  assumes "info_ret e = 0" and "region_ret e = 0" and "bar_map e \<noteq> MAP_FAILED" and "32 \<le> length (bar s)"
  shows "\<exists>s' pre. use_device_then rest e d s = rest s'
    \<and> calls s' = calls s @ [Group_get_device_fd d, Device_get_info, Device_get_region_info 0,
        Mmap_region (region_size e) (region_offset e)]
    \<and> bar s' = map (\<lambda>b. b + 1) (take 32 (bar s)) @ drop 32 (bar s)
    \<and> out s' = out s @ pre @ dump_text (take 32 (bar s)) @ dump_text (take 32 (bar s'))"
proof -
  have "length (map (\<lambda>b. b + 1) (take 32 (bar s)) @ drop 32 (bar s)) = length (bar s)" using assms(4) by simp
  then show ?thesis using assms
    by (intro exI conjI) (simp add: use_device_then_def Let_def dump_hex_text modify_hex_adds, simp_all)
qed

lemma use_device_ok:
  assumes "info_ret e = 0" and "region_ret e = 0" and "bar_map e \<noteq> MAP_FAILED" and "32 \<le> length (bar s)"
  shows "\<exists>s' pre. use_device e d s = Inr (0, s')
    \<and> calls s' = calls s @ [Group_get_device_fd d, Device_get_info, Device_get_region_info 0,
        Mmap_region (region_size e) (region_offset e), Device_reset]
    \<and> bar s' = map (\<lambda>b. b + 1) (take 32 (bar s)) @ drop 32 (bar s)
    \<and> out s' = out s @ pre @ dump_text (take 32 (bar s)) @ dump_text (take 32 (bar s'))"
  using use_device_then_ok [OF assms, of finish d] by (auto simp: use_device_def finish_def)

lemma use_device_fails:
  assumes "info_ret e \<noteq> 0 \<or> region_ret e \<noteq> 0"
  shows "\<exists>s' new. use_device_then rest e d s = Inr (1, s') \<and> bar s' = bar s \<and> calls s' = calls s @ new \<and> Device_reset \<notin> set new"
  using assms by (auto simp: use_device_then_def Let_def quit_def)

lemma ret_zero: "(a :: int) OR b OR c = 0 \<longleftrightarrow> a = 0 \<and> b = 0 \<and> c = 0"
  by (simp add: or_eq_0_iff)

lemma windows_separate: "separate [dma_map_src e, dma_map_dst e, dma_map_inst e]"
  by (simp add: separate_def dma_map_src_def dma_map_dst_def dma_map_inst_def size_to_map_def)

lemma checks_pass_setup: "checks_pass e \<longleftrightarrow> setup_ok e \<and> info_ret e = 0 \<and> region_ret e = 0"
  by (auto simp: checks_pass_def setup_ok_def)

lemma mapped_fields:
  "calls (mapped e argv s) = calls s @ [Open ''/dev/vfio/vfio'', Get_api_version, Check_extension, Open (argv ! 1),
     Group_get_status, Group_set_container, Set_iommu, Iommu_get_info, Mmap_anon 0x1000, Mmap_anon 0x1000, Mmap_anon 0x1000,
     Map_dma (dma_map_src e), Map_dma (dma_map_dst e), Map_dma (dma_map_inst e)]"
  "bar (mapped e argv s) = bar s" "out (mapped e argv s) = out s"
  by (simp_all add: mapped_def VFIO_CONTAINER_def size_to_map_def)

lemma vfio_main_maps:
  assumes "length argv = 3" and "setup_ok e"
  shows "vfio_main_then rest e argv s = use_device_then rest e (argv ! 2) (mapped e argv s)"
  using assms by (simp add: vfio_main_then_def mapped_def setup_ok_def Let_def)

lemma vfio_main_rejects:
  assumes "length argv = 3" and "\<not> setup_ok e"
  shows "\<exists>s' new. vfio_main_then rest e argv s = Inr (1, s') \<and> calls s' = calls s @ new \<and> bar s' = bar s \<and> Device_reset \<notin> set new"
  using assms ret_zero by (auto simp: vfio_main_then_def setup_ok_def quit_def Let_def)

section \<open>Properties\<close>

text \<open>C22. The program with its two arguments and a device mapping that succeeds. When every check passes it makes
  exactly the calls of the VFIO protocol in their order, the three windows it maps are page-sized, aligned
  and do not overlap in the device's address space, the first 32 bytes of the register window are
  incremented (modulo 256) and no other byte changes, both dumps show the bytes before and after, and the
  exit status is 0. When a check fails the exit status is 1, the device is not touched and not reset.\<close>

theorem vfio_main_outcome:
  assumes "length argv = 3" and "bar_map e \<noteq> MAP_FAILED" and "32 \<le> length (bar s)"
  shows "\<exists>s' new pre. vfio_main e argv s = Inr (if checks_pass e then 0 else 1, s') \<and> calls s' = calls s @ new
    \<and> (if checks_pass e
       then new = [Open ''/dev/vfio/vfio'', Get_api_version, Check_extension, Open (argv ! 1), Group_get_status,
             Group_set_container, Set_iommu, Iommu_get_info, Mmap_anon 0x1000, Mmap_anon 0x1000, Mmap_anon 0x1000,
             Map_dma (dma_map_src e), Map_dma (dma_map_dst e), Map_dma (dma_map_inst e),
             Group_get_device_fd (argv ! 2), Device_get_info, Device_get_region_info 0,
             Mmap_region (region_size e) (region_offset e), Device_reset]
         \<and> separate (windows new)
         \<and> bar s' = map (\<lambda>b. b + 1) (take 32 (bar s)) @ drop 32 (bar s)
         \<and> out s' = out s @ pre @ dump_text (take 32 (bar s)) @ dump_text (take 32 (bar s'))
       else bar s' = bar s \<and> Device_reset \<notin> set new)"
proof (cases "setup_ok e")
  case False
  then have "\<not> checks_pass e" by (simp add: checks_pass_setup)
  then show ?thesis using vfio_main_rejects [OF assms(1) False, of finish s] by (auto simp: vfio_main_def)
next
  case True
  note main = vfio_main_maps [OF assms(1) True, of finish s, folded vfio_main_def use_device_def]
  show ?thesis
  proof (cases "checks_pass e")
    case False
    then have "info_ret e \<noteq> 0 \<or> region_ret e \<noteq> 0" using True by (simp add: checks_pass_setup)
    then obtain s' new where "use_device e (argv ! 2) (mapped e argv s) = Inr (1, s')" "bar s' = bar s"
        "calls s' = calls (mapped e argv s) @ new" "Device_reset \<notin> set new"
      using use_device_fails [of e finish "argv ! 2" "mapped e argv s", folded use_device_def] mapped_fields(2) by metis
    then show ?thesis using main False mapped_fields(1) by auto
  next
    case ok: True
    then have "info_ret e = 0" "region_ret e = 0" by (simp_all add: checks_pass_setup)
    from use_device_ok [OF this assms(2), of "mapped e argv s" "argv ! 2"] show ?thesis
      using main ok assms(3) windows_separate [of e] by (auto simp: mapped_fields windows_def)
  qed
qed

text \<open>A failed device mapping is only kept from being announced: the program then reads through \<^verbatim>\<open>MAP_FAILED\<close>.\<close>

theorem vfio_main_map_failed:
  assumes "length argv = 3" and "checks_pass e" and "bar_map e = MAP_FAILED"
  shows "vfio_main e argv s = Inl Bad_access"
  using assms
  by (simp add: vfio_main_def vfio_main_then_def use_device_then_def checks_pass_def Let_def dump_hex_def dump_from.simps [of _ 0] at_def)

section \<open>Witnesses\<close>

theorem vfio_main_outcome_witness:
  "\<exists>s'. vfio_main vfio_env0 [''vfio-dt'', ''/dev/vfio/12'', ''0000:01:00.0''] vfio0 = Inr (0, s')
    \<and> bar s' = replicate 32 0 @ replicate 4064 0xFF"
proof -
  have "checks_pass vfio_env0" by (simp add: checks_pass_def vfio_env0_def)
  moreover have "bar_map vfio_env0 \<noteq> MAP_FAILED" "32 \<le> length (bar vfio0)" by (simp_all add: vfio_env0_def vfio0_def)
  ultimately show ?thesis
    using vfio_main_outcome [of "[''vfio-dt'', ''/dev/vfio/12'', ''0000:01:00.0'']" vfio_env0 vfio0]
    by (auto simp: vfio0_def min_def)
qed

end
