(* ===== verification/Vfiodma.thy ===== *)
theory Vfiodma
  imports Vfio
begin

text \<open>
  The part of \<^verbatim>\<open>src/test/vfio_test/vfio_test.c\<close> that is switched off at the top of the file: the interrupt
  helpers (lines 44 to 91), the completion callback and the DMA test of \<^verbatim>\<open>main\<close> (lines 243 to 351). The
  functions of the pl330 library, which is not part of the repository, are parameters, and so is whether
  \<^verbatim>\<open>IRQ\<close> is defined. \<open>vfio_main_dma\<close> is the whole program with \<^verbatim>\<open>DMA_DRIVER\<close> switched on.
\<close>

section \<open>Interrupt helpers\<close>

text \<open>The answers of the calls on the interrupt.\<close>

record irq_env =
  irq_info_ret :: int
  irq_info_count :: u32
  irq_info_flags :: u32
  eventfd_ret :: int
  malloc_ok :: bool
  set_irqs_ret :: "irq_set \<Rightarrow> int"
  read_ret :: int
  read_errno :: int

abbreviation VFIO_IRQ_SET_DATA_NONE :: u32 where "VFIO_IRQ_SET_DATA_NONE \<equiv> 1"
abbreviation VFIO_IRQ_SET_DATA_EVENTFD :: u32 where "VFIO_IRQ_SET_DATA_EVENTFD \<equiv> 4"
abbreviation VFIO_IRQ_SET_ACTION_TRIGGER :: u32 where "VFIO_IRQ_SET_ACTION_TRIGGER \<equiv> 32"
abbreviation EAGAIN :: int where "EAGAIN \<equiv> 11"

text \<open>Five 32-bit words; the data follow them.\<close>

definition sizeof_irq_set :: nat where "sizeof_irq_set = 20"

text \<open>The process goes on with the right value or has exited with the left one.\<close>

definition vfio_irqfd_clean :: "irq_env \<Rightarrow> u32 \<Rightarrow> vfio \<Rightarrow> (int \<times> vfio) + vfio" where
  "vfio_irqfd_clean e index s =
     (let set = \<lparr>irq_argsz = sizeof_irq_set, irq_flags = VFIO_IRQ_SET_DATA_NONE OR VFIO_IRQ_SET_ACTION_TRIGGER,
            irq_index = index, irq_start = 0, irq_count = 0, irq_data = []\<rparr>;
          s1 = issue (Device_set_irqs set) s
      in if set_irqs_ret e set \<noteq> 0
         then Inl (1, say (''Failure in vfio_irqfd_clean for IRQ '' @ fmt_d (sint index) @ newline) s1)
         else Inr s1)"

definition vfio_irqfd_init :: "irq_env \<Rightarrow> u32 \<Rightarrow> int \<Rightarrow> vfio \<Rightarrow> (int \<times> vfio) + vfio" where
  "vfio_irqfd_init e index fd s =
     (if \<not> malloc_ok e then Inl (1, say (''Failure in vfio_irqfd_init allocating memory'' @ newline) s)
      else
        let set = \<lparr>irq_argsz = sizeof_irq_set + 4, irq_flags = VFIO_IRQ_SET_DATA_EVENTFD OR VFIO_IRQ_SET_ACTION_TRIGGER,
              irq_index = index, irq_start = 0, irq_count = 1, irq_data = [fd]\<rparr>;
            s1 = issue (Device_set_irqs set) s
        in if set_irqs_ret e set \<noteq> 0
           then Inl (1, say (''Failure in vfio_irqfd_init for IRQ '' @ fmt_d (sint index) @ newline) s1)
           else Inr s1)"

definition done_callback :: "string \<Rightarrow> vfio \<Rightarrow> vfio" where
  "done_callback user_data s = say (''the message is: '' @ user_data @ newline) (say (''done!'' @ newline) s)"

section \<open>The DMA controller's library\<close>

text \<open>The fields of the request the program sets; the other ones are whatever the library puts there.\<close>

record 'o req_config =
  iova_src :: u64
  iova_dst :: u64
  cfg_size :: u64
  int_fin :: bool
  chan_id :: int
  user_data :: string
  cfg_other :: 'o

text \<open>The three windows as the program sees them, and the controller.\<close>

record 'd dma =
  src_words :: "u32 list"
  dst_words :: "u32 list"
  inst_bytes :: "u8 list"
  ctl :: 'd

text \<open>\<^verbatim>\<open>submit\<close> also says whether the callback was called before it returned.\<close>

record ('d, 'o) pl330 =
  pl330_vfio_init :: "u64 \<Rightarrow> 'd \<Rightarrow> 'd"
  pl330_vfio_add_irq :: "int \<Rightarrow> u32 \<Rightarrow> 'd \<Rightarrow> 'd"
  pl330_vfio_start_irq_handler :: "'d \<Rightarrow> 'd"
  mem2mem_defconfig :: "'o req_config \<Rightarrow> 'o req_config"
  pl330_vfio_request_channel :: "'d \<Rightarrow> int \<times> 'd"
  generate_cmds :: "'o req_config \<Rightarrow> u8 list \<Rightarrow> u8 list"
  pl330_vfio_submit_req :: "u64 \<Rightarrow> 'o req_config \<Rightarrow> 'd dma \<Rightarrow> 'd dma \<times> bool"
  pl330_vfio_reset :: "'d \<Rightarrow> 'd"
  pl330_vfio_release_channel :: "int \<Rightarrow> 'd \<Rightarrow> 'd"

section \<open>The test\<close>

type_synonym ('d, 'a) exits = "(int \<times> 'd dma \<times> vfio) + 'a"

text \<open>Go on unless the process has ended.\<close>

definition unless_exit :: "('d, 'a) exits \<Rightarrow> ('a \<Rightarrow> crash + int \<times> 'd dma \<times> vfio) \<Rightarrow> crash + int \<times> 'd dma \<times> vfio" where
  "unless_exit x k = (case x of Inl r \<Rightarrow> Inr r | Inr a \<Rightarrow> k a)"

definition irq_line :: "irq_env \<Rightarrow> string" where
  "irq_line e = ''- IRQ '' @ fmt_d 0 @ '': range of '' @ fmt_d (sint (irq_info_count e)) @
     '', flags=0x'' @ fmt_x 0 (unat (irq_info_flags e)) @ newline"

definition irq_block :: "('d, 'o) pl330 \<Rightarrow> irq_env \<Rightarrow> u64 \<Rightarrow> 'd dma \<Rightarrow> vfio \<Rightarrow> ('d, 'd dma \<times> vfio) exits" where
  "irq_block P e base_regs m s =
     (let s1 = issue (Device_get_irq_info 0) s
      in if irq_info_ret e \<noteq> 0 then Inl (1, m, say (''Couldn't get IRQ '' @ fmt_d 0 @ '' info'' @ newline) s1)
         else
           let s2 = issue Eventfd (say (irq_line e) s1)
           in if eventfd_ret e < 0 then Inl (1, m, s2)
              else case vfio_irqfd_init e 0 (eventfd_ret e) s2 of
                     Inl (r, s3) \<Rightarrow> Inl (r, m, s3)
                   | Inr s3 \<Rightarrow>
                       let m1 = m\<lparr>ctl := pl330_vfio_add_irq P (eventfd_ret e) 0 (pl330_vfio_init P base_regs (ctl m))\<rparr>;
                           s4 = issue (Read_eventfd (eventfd_ret e)) s3
                       in if read_ret e \<noteq> - 1 \<or> read_errno e \<noteq> EAGAIN
                          then Inl (1, m1, say (''IRQ '' @ fmt_d 0 @ '' shouldn't trigger yet.'' @ newline) s4)
                          else Inr (m1, s4))"

text \<open>The two loops over the words of the windows; \<open>rnd c\<close> is the result of the \<open>c\<close>-th call of \<^verbatim>\<open>rand\<close>.\<close>

function fill_from :: "(nat \<Rightarrow> u32) \<Rightarrow> nat \<Rightarrow> nat \<Rightarrow> 'd dma \<Rightarrow> crash + 'd dma" where
  "fill_from rnd c tot m =
     (if c < tot then
        if c < length (src_words m) then fill_from rnd (Suc c) tot (m\<lparr>src_words := (src_words m)[c := rnd c]\<rparr>)
        else Inl Bad_access
      else Inr m)"
  by pat_completeness auto
termination
  by (relation "measure (\<lambda>(r, c, t, m). t - c)") auto

declare fill_from.simps [simp del]

definition failure_line :: "nat \<Rightarrow> u32 \<Rightarrow> u32 \<Rightarrow> string" where
  "failure_line c a b =
     ''test failed! - '' @ fmt_d (int c) @ '' - 0x'' @ fmt_x 0 (unat a) @ '' - 0x'' @ fmt_x 0 (unat b) @ newline"

function compare_from :: "nat \<Rightarrow> nat \<Rightarrow> 'd dma \<Rightarrow> vfio \<Rightarrow> crash + vfio" where
  "compare_from c tot m s =
     (if c < tot then
        if c < length (src_words m) \<and> c < length (dst_words m) then
          compare_from (Suc c) tot m
            (if src_words m ! c \<noteq> dst_words m ! c then say (failure_line c (src_words m ! c) (dst_words m ! c)) s else s)
        else Inl Bad_access
      else Inr s)"
  by pat_completeness auto
termination
  by (relation "measure (\<lambda>(c, t, m, s). t - c)") auto

declare compare_from.simps [simp del]

text \<open>The first words of both windows, as printed before and after the transfer.\<close>

definition value_lines :: "'d dma \<Rightarrow> vfio \<Rightarrow> crash + vfio" where
  "value_lines m s =
     (case (src_words m, dst_words m) of
        (a # _, b # _) \<Rightarrow> Inr (say (''destination value: 0x'' @ fmt_x 0 (unat b) @ newline)
                             (say (''source value: 0x'' @ fmt_x 0 (unat a) @ newline) s))
      | _ \<Rightarrow> Inl Bad_access)"

definition request :: "('d, 'o) pl330 \<Rightarrow> vfio_env \<Rightarrow> 'o req_config \<Rightarrow> int \<Rightarrow> 'o req_config" where
  "request P e uninit channel_id = (mem2mem_defconfig P uninit)
     \<lparr>iova_src := iova (dma_map_src e), iova_dst := iova (dma_map_dst e), cfg_size := map_len (dma_map_src e),
      int_fin := True, chan_id := channel_id, user_data := ''transfer completed''\<rparr>"

definition transfer ::
  "('d, 'o) pl330 \<Rightarrow> irq_env \<Rightarrow> bool \<Rightarrow> vfio_env \<Rightarrow> (nat \<Rightarrow> u32) \<Rightarrow> 'o req_config \<Rightarrow> 'd dma \<Rightarrow> vfio \<Rightarrow> crash + int \<times> 'd dma \<times> vfio" where
  "transfer P ie irq e rnd uninit m s =
     (let tot = unat (map_len (dma_map_src e)) div 4
      in andThen (fill_from rnd 0 tot m) (\<lambda>m1.
         andThen (value_lines m1 s) (\<lambda>s1.
         let s2 = say (''start thread'' @ newline) s1;
             (channel_id, d) = pl330_vfio_request_channel P (pl330_vfio_start_irq_handler P (ctl m1));
             m2 = m1\<lparr>ctl := d\<rparr>
         in if channel_id < 0 then Inr (- 1, m2, say (''fail! No channels available!'' @ newline) s2)
            else
              let s3 = say (''channel '' @ fmt_d channel_id @ '' allocated'' @ newline) s2;
                  config = request P e uninit channel_id;
                  m3 = m2\<lparr>inst_bytes := generate_cmds P config (inst_bytes m2)\<rparr>;
                  (m4, called) = pl330_vfio_submit_req P (iova (dma_map_inst e)) config m3;
                  s4 = (if called then done_callback (user_data config) s3 else s3)
              in andThen (compare_from 0 tot m4 s4) (\<lambda>s5.
                 let m5 = m4\<lparr>ctl := pl330_vfio_reset P (ctl m4)\<rparr>
                 in andThen (value_lines m5 s5) (\<lambda>s6.
                    let m6 = m5\<lparr>ctl := pl330_vfio_release_channel P channel_id (ctl m5)\<rparr>
                    in if irq then
                         unless_exit (case vfio_irqfd_clean ie 0 s6 of Inl (r, s7) \<Rightarrow> Inl (r, m5, s7) | Inr s7 \<Rightarrow> Inr s7) (\<lambda>s7.
                           Inr (0, m6, issue Device_reset (issue (Close (eventfd_ret ie)) s7)))
                       else Inr (0, m6, issue Device_reset s6))))))"

definition dma_test ::
  "('d, 'o) pl330 \<Rightarrow> irq_env \<Rightarrow> bool \<Rightarrow> vfio_env \<Rightarrow> (nat \<Rightarrow> u32) \<Rightarrow> 'o req_config \<Rightarrow> 'd dma \<Rightarrow> vfio \<Rightarrow> crash + int \<times> 'd dma \<times> vfio" where
  "dma_test P ie irq e rnd uninit m s =
     unless_exit (if irq then irq_block P ie (bar_map e) m s else Inr (m, s)) (\<lambda>(m1, s1).
       transfer P ie irq e rnd uninit m1 s1)"

text \<open>The whole program with \<^verbatim>\<open>DMA_DRIVER\<close> switched on.\<close>

definition vfio_main_dma ::
  "('d, 'o) pl330 \<Rightarrow> irq_env \<Rightarrow> bool \<Rightarrow> (nat \<Rightarrow> u32) \<Rightarrow> 'o req_config \<Rightarrow> 'd dma \<Rightarrow> vfio_env \<Rightarrow> string list \<Rightarrow> vfio \<Rightarrow> crash + int \<times> vfio" where
  "vfio_main_dma P ie irq rnd uninit m e argv s =
     vfio_main_then (\<lambda>s1. andThen (dma_test P ie irq e rnd uninit m s1) (\<lambda>(r, m', s'). Inr (r, s'))) e argv s"

section \<open>Specification\<close>

text \<open>The report on two windows: a line per word that differs.\<close>

definition failures :: "u32 list \<Rightarrow> u32 list \<Rightarrow> string" where
  "failures src dst = concat (map (\<lambda>c. failure_line c (src ! c) (dst ! c)) (filter (\<lambda>c. src ! c \<noteq> dst ! c) [0..<length src]))"

definition value_text :: "u32 \<Rightarrow> u32 \<Rightarrow> string" where
  "value_text a b = ''source value: 0x'' @ fmt_x 0 (unat a) @ newline @ ''destination value: 0x'' @ fmt_x 0 (unat b) @ newline"

definition done_text :: "bool \<Rightarrow> string" where
  "done_text called = (if called then ''done!'' @ newline @ ''the message is: transfer completed'' @ newline else '''')"

text \<open>The interrupt is there, can be bound and has not fired.\<close>

definition irq_ready :: "irq_env \<Rightarrow> bool" where
  "irq_ready e \<longleftrightarrow> irq_info_ret e = 0 \<and> 0 \<le> eventfd_ret e \<and> malloc_ok e \<and> (\<forall>x. set_irqs_ret e x = 0)
     \<and> read_ret e = - 1 \<and> read_errno e = EAGAIN"

text \<open>The text of a transfer from words \<open>src\<close> that finds \<open>old\<close> in the destination, and the calls at its end.\<close>

definition transfer_text :: "u32 list \<Rightarrow> u32 list \<Rightarrow> int \<Rightarrow> bool \<Rightarrow> u32 list \<Rightarrow> u32 list \<Rightarrow> string" where
  "transfer_text src old ch called src' dst' =
     value_text (src ! 0) (old ! 0) @ ''start thread'' @ newline @ ''channel '' @ fmt_d ch @ '' allocated'' @ newline
     @ done_text called @ failures src' dst' @ value_text (src' ! 0) (dst' ! 0)"

text \<open>A memory window keeps its size whatever the library does to its contents.\<close>

definition keeps_windows :: "('d, 'o) pl330 \<Rightarrow> bool" where
  "keeps_windows P \<longleftrightarrow> (\<forall>a cfg m. length (src_words (fst (pl330_vfio_submit_req P a cfg m))) = length (src_words m)
     \<and> length (dst_words (fst (pl330_vfio_submit_req P a cfg m))) = length (dst_words m))"

text \<open>What the library is handed, by the channel and the controller it has allotted.\<close>

definition submitted :: "('d, 'o) pl330 \<Rightarrow> vfio_env \<Rightarrow> (nat \<Rightarrow> u32) \<Rightarrow> 'o req_config \<Rightarrow> 'd dma \<Rightarrow> int \<times> 'd \<Rightarrow> 'd dma" where
  "submitted P e rnd uninit m = (\<lambda>(ch, d). m\<lparr>src_words := map rnd [0..<1024], ctl := d,
     inst_bytes := generate_cmds P (request P e uninit ch) (inst_bytes m)\<rparr>)"

section \<open>Fixtures\<close>





section \<open>Lemmas\<close>

lemma fill_from_fills:
  assumes "length (src_words m) = tot" and "c \<le> tot"
  shows "fill_from rnd c tot m = Inr (m\<lparr>src_words := take c (src_words m) @ map rnd [c..<tot]\<rparr>)"
  using assms
proof (induction "tot - c" arbitrary: c m)
  case 0
  then show ?case by (simp add: fill_from.simps [of rnd c])
next
  case (Suc n)
  then have c: "c < tot" by simp
  let ?m = "m\<lparr>src_words := (src_words m)[c := rnd c]\<rparr>"
  have "fill_from rnd c tot m = fill_from rnd (Suc c) tot ?m"
    using c Suc.prems by (simp add: fill_from.simps [of rnd c])
  also have "\<dots> = Inr (?m\<lparr>src_words := take (Suc c) (src_words ?m) @ map rnd [Suc c..<tot]\<rparr>)"
    using Suc.hyps(2) Suc.prems c by (intro Suc.hyps(1)) simp_all
  also have "take (Suc c) (src_words ?m) = take c (src_words m) @ [rnd c]"
    using c Suc.prems by (simp add: take_Suc_conv_app_nth)
  finally show ?case using c by (simp add: upt_conv_Cons)
qed

lemma compare_from_reports:
  assumes "length (src_words m) = tot" and "length (dst_words m) = tot" and "c \<le> tot"
  shows "compare_from c tot m s = Inr (say (concat (map (\<lambda>c. failure_line c (src_words m ! c) (dst_words m ! c))
    (filter (\<lambda>c. src_words m ! c \<noteq> dst_words m ! c) [c..<tot]))) s)"
  using assms(3)
proof (induction "tot - c" arbitrary: c s)
  case 0
  then show ?case by (simp add: compare_from.simps [of c] say_def)
next
  case (Suc n)
  then have c: "c < tot" by simp
  let ?s = "if src_words m ! c \<noteq> dst_words m ! c then say (failure_line c (src_words m ! c) (dst_words m ! c)) s else s"
  have "compare_from c tot m s = compare_from (Suc c) tot m ?s"
    using c assms(1,2) by (simp add: compare_from.simps [of c tot])
  also have "\<dots> = Inr (say (concat (map (\<lambda>c. failure_line c (src_words m ! c) (dst_words m ! c))
    (filter (\<lambda>c. src_words m ! c \<noteq> dst_words m ! c) [Suc c..<tot]))) ?s)"
    using Suc.hyps c by (intro Suc.hyps(1)) simp_all
  finally show ?case using c by (simp add: upt_conv_Cons say_def)
qed

lemma value_lines_text:
  assumes "src_words m \<noteq> []" and "dst_words m \<noteq> []"
  shows "value_lines m s = Inr (say (value_text (src_words m ! 0) (dst_words m ! 0)) s)"
  using assms by (cases "src_words m"; cases "dst_words m") (auto simp: value_lines_def value_text_def say_def)


text \<open>The report is empty exactly when the windows agree.\<close>

lemma failures_nonempty:
  assumes "i < length src" and "src ! i \<noteq> dst ! i"
  shows "failures src dst \<noteq> ''''"
proof -
  have "i \<in> set (filter (\<lambda>c. src ! c \<noteq> dst ! c) [0..<length src])" using assms by simp
  then show ?thesis by (auto simp: failures_def failure_line_def)
qed


lemma transfer_reports:
  assumes "length (src_words m) = 1024" and "length (dst_words m) = 1024"
    and "pl330_vfio_request_channel P (pl330_vfio_start_irq_handler P (ctl m)) = (ch, d)" and "0 \<le> ch"
    and "pl330_vfio_submit_req P (iova (dma_map_inst e)) (request P e uninit ch)
      (m\<lparr>src_words := map rnd [0..<1024], ctl := d, inst_bytes := generate_cmds P (request P e uninit ch) (inst_bytes m)\<rparr>) = (m4, called)"
    and "length (src_words m4) = 1024" and "length (dst_words m4) = 1024"
    and "irq \<longrightarrow> irq_ready ie"
  shows "\<exists>m' s'. transfer P ie irq e rnd uninit m s = Inr (0, m', s')
    \<and> out s' = out s @ transfer_text (map rnd [0..<1024]) (dst_words m) ch called (src_words m4) (dst_words m4)
    \<and> src_words m' = src_words m4 \<and> dst_words m' = dst_words m4
    \<and> ctl m' = pl330_vfio_release_channel P ch (pl330_vfio_reset P (ctl m4))"
proof -
  let ?src = "map rnd [0..<1024]"
  have tot: "unat (map_len (dma_map_src e)) div 4 = 1024" by (simp add: dma_map_src_def size_to_map_def)
  have fill: "fill_from rnd 0 1024 m = Inr (m\<lparr>src_words := ?src\<rparr>)"
    using fill_from_fills [OF assms(1)] by (simp del: upt_rec_numeral)
  have ne: "?src \<noteq> []" "dst_words m \<noteq> []" "src_words m4 \<noteq> []" "dst_words m4 \<noteq> []"
    using assms(1,2,6,7) by auto
  have cmp: "compare_from 0 1024 m4 t = Inr (say (failures (src_words m4) (dst_words m4)) t)" for t
    using compare_from_reports [OF assms(6,7)] assms(6) by (simp add: failures_def del: upt_rec_numeral)
  have cfg: "user_data (request P e uninit ch) = ''transfer completed''" by (simp add: request_def)
  have v1: "value_lines (m\<lparr>src_words := ?src\<rparr>) t = Inr (say (value_text (?src ! 0) (dst_words m ! 0)) t)" for t
    using value_lines_text [of "m\<lparr>src_words := ?src\<rparr>"] ne(1,2) by (simp del: upt_rec_numeral)
  have v2: "value_lines (m4\<lparr>ctl := x\<rparr>) t = Inr (say (value_text (src_words m4 ! 0) (dst_words m4 ! 0)) t)" for t x
    using value_lines_text [of "m4\<lparr>ctl := x\<rparr>"] ne(3,4) by simp
  show ?thesis
    using assms(3,4,5,8)
    by (cases irq) (simp_all add: transfer_def tot fill v1 v2 cmp Let_def cfg transfer_text_def done_text_def
        done_callback_def vfio_irqfd_clean_def irq_ready_def unless_exit_def del: upt_rec_numeral)
qed

lemma irq_block_ready:
  assumes "irq_ready ie"
  shows "\<exists>s'. irq_block P ie b m s = Inr (m\<lparr>ctl := pl330_vfio_add_irq P (eventfd_ret ie) 0 (pl330_vfio_init P b (ctl m))\<rparr>, s')"
  using assms by (simp add: irq_block_def irq_ready_def vfio_irqfd_init_def Let_def)

text \<open>The state in which the transfer starts.\<close>

lemma dma_test_transfers:
  assumes "irq \<longrightarrow> irq_ready ie"
  shows "\<exists>d s1. dma_test P ie irq e rnd uninit m s = transfer P ie irq e rnd uninit (m\<lparr>ctl := d\<rparr>) s1"
proof (cases irq)
  case True
  with assms obtain d s1 where "irq_block P ie (bar_map e) m s = Inr (m\<lparr>ctl := d\<rparr>, s1)"
    using irq_block_ready [of ie P "bar_map e" m s] by blast
  with True show ?thesis by (auto simp: dma_test_def unless_exit_def)
next
  case False
  then have "dma_test P ie irq e rnd uninit m s = transfer P ie irq e rnd uninit (m\<lparr>ctl := ctl m\<rparr>) s"
    by (simp add: dma_test_def unless_exit_def)
  then show ?thesis by blast
qed

lemma windows_iova: "iova (dma_map_inst e) = 0x2000"
  "iova_src (request P e u ch) = 0" "iova_dst (request P e u ch) = 0x1000" "cfg_size (request P e u ch) = 0x1000"
  by (simp_all add: request_def dma_map_src_def dma_map_dst_def dma_map_inst_def size_to_map_def)

text \<open>Without a channel the transfer ends before anything is submitted.\<close>

lemma transfer_no_channel:
  assumes "length (src_words m) = 1024" and "length (dst_words m) = 1024"
    and "pl330_vfio_request_channel P (pl330_vfio_start_irq_handler P (ctl m)) = (ch, d)" and "ch < 0"
  shows "\<exists>m' s'. transfer P ie irq e rnd uninit m s = Inr (- 1, m', s')
    \<and> out s' = out s @ value_text (rnd 0) (dst_words m ! 0) @ ''start thread'' @ newline @ ''fail! No channels available!'' @ newline"
proof -
  let ?src = "map rnd [0..<1024]"
  have tot: "unat (map_len (dma_map_src e)) div 4 = 1024" by (simp add: dma_map_src_def size_to_map_def)
  have fill: "fill_from rnd 0 1024 m = Inr (m\<lparr>src_words := ?src\<rparr>)"
    using fill_from_fills [OF assms(1)] by (simp del: upt_rec_numeral)
  have "?src \<noteq> []" "dst_words m \<noteq> []" "?src ! 0 = rnd 0" using assms(2) by (auto simp del: upt_rec_numeral)
  then have v1: "value_lines (m\<lparr>src_words := ?src\<rparr>) t = Inr (say (value_text (rnd 0) (dst_words m ! 0)) t)" for t
    using value_lines_text [of "m\<lparr>src_words := ?src\<rparr>"] by (simp del: upt_rec_numeral)
  show ?thesis using assms(3,4) by (simp add: transfer_def tot fill v1 Let_def del: upt_rec_numeral)
qed

text \<open>The whole program over any library.\<close>

lemma vfio_main_dma_runs:
  assumes "length argv = 3" and "checks_pass e" and "bar_map e \<noteq> MAP_FAILED" and "32 \<le> length (bar s)"
    and "irq \<longrightarrow> irq_ready ie" and "length (src_words m) = 1024" and "length (dst_words m) = 1024" and "keeps_windows P"
  shows "\<exists>s' pre d ch d'. pl330_vfio_request_channel P d = (ch, d')
    \<and> (if ch < 0 then vfio_main_dma P ie irq rnd uninit m e argv s = Inr (- 1, s')
         \<and> out s' = pre @ value_text (rnd 0) (dst_words m ! 0) @ ''start thread'' @ newline @ ''fail! No channels available!'' @ newline
       else vfio_main_dma P ie irq rnd uninit m e argv s = Inr (0, s')
         \<and> (\<exists>m4 called. pl330_vfio_submit_req P 0x2000 (request P e uninit ch) (submitted P e rnd uninit m (ch, d')) = (m4, called)
              \<and> length (src_words m4) = 1024 \<and> length (dst_words m4) = 1024
              \<and> out s' = pre @ transfer_text (map rnd [0..<1024]) (dst_words m) ch called (src_words m4) (dst_words m4)))"
proof -
  let ?rest = "\<lambda>s1. andThen (dma_test P ie irq e rnd uninit m s1) (\<lambda>(r, m', s'). Inr (r, s'))"
  have "setup_ok e" "info_ret e = 0" "region_ret e = 0" using assms(2) by (simp_all add: checks_pass_setup)
  then obtain s1 where main: "vfio_main_then ?rest e argv s = ?rest s1"
    using vfio_main_maps [OF assms(1), of e ?rest s] use_device_then_ok [of e "mapped e argv s" ?rest "argv ! 2"] assms(3,4)
    by (metis mapped_fields(2))
  obtain d s2 where test: "dma_test P ie irq e rnd uninit m s1 = transfer P ie irq e rnd uninit (m\<lparr>ctl := d\<rparr>) s2"
    using dma_test_transfers [OF assms(5), of P e rnd uninit m s1] by blast
  have run: "vfio_main_dma P ie irq rnd uninit m e argv s = Inr (r, s')"
    if "transfer P ie irq e rnd uninit (m\<lparr>ctl := d\<rparr>) s2 = Inr (r, m', s')" for r m' s'
    using main test that by (simp add: vfio_main_dma_def)
  obtain ch d' where ch: "pl330_vfio_request_channel P (pl330_vfio_start_irq_handler P d) = (ch, d')" by fastforce
  show ?thesis
  proof (cases "ch < 0")
    case True
    then obtain m' s' where "transfer P ie irq e rnd uninit (m\<lparr>ctl := d\<rparr>) s2 = Inr (- 1, m', s')"
        "out s' = out s2 @ value_text (rnd 0) (dst_words m ! 0) @ ''start thread'' @ newline @ ''fail! No channels available!'' @ newline"
      using transfer_no_channel [of "m\<lparr>ctl := d\<rparr>" P ch d' ie irq e rnd uninit s2] ch assms(6,7) by auto
    then show ?thesis using ch True run by (metis (lifting))
  next
    case False
    let ?m = "submitted P e rnd uninit m (ch, d')"
    obtain m4 called where sub: "pl330_vfio_submit_req P 0x2000 (request P e uninit ch) ?m = (m4, called)" by fastforce
    have "length (src_words ?m) = 1024" "length (dst_words ?m) = 1024"
      using assms(7) by (simp_all add: submitted_def del: upt_rec_numeral)
    then have len: "length (src_words m4) = 1024" "length (dst_words m4) = 1024"
      using assms(8) sub unfolding keeps_windows_def by (metis fst_conv)+
    have sub': "pl330_vfio_submit_req P (iova (dma_map_inst e)) (request P e uninit ch) ((m\<lparr>ctl := d\<rparr>)
        \<lparr>src_words := map rnd [0..<1024], ctl := d', inst_bytes := generate_cmds P (request P e uninit ch) (inst_bytes (m\<lparr>ctl := d\<rparr>))\<rparr>)
      = (m4, called)"
      using sub by (simp add: submitted_def windows_iova(1) del: upt_rec_numeral)
    obtain m' s' where "transfer P ie irq e rnd uninit (m\<lparr>ctl := d\<rparr>) s2 = Inr (0, m', s')"
        "out s' = out s2 @ transfer_text (map rnd [0..<1024]) (dst_words m) ch called (src_words m4) (dst_words m4)"
      using transfer_reports [OF _ _ _ _ sub' len assms(5), of s2] ch False assms(6,7) by (auto simp del: upt_rec_numeral)
    then show ?thesis using ch False run sub len by (metis (lifting))
  qed
qed

section \<open>Properties\<close>


text \<open>On a library whose \<^verbatim>\<open>submit\<close> returns before the copy, which the completion callback is there for, the
  words are compared too early: every word that is drawn different from what the destination held is
  reported, and the status is 0 all the same.\<close>

theorem vfio_dma_compares_early:
  assumes "length argv = 3" and "checks_pass e" and "bar_map e \<noteq> MAP_FAILED" and "32 \<le> length (bar s)"
    and "irq \<longrightarrow> irq_ready ie" and "length (src_words m) = 1024" and "length (dst_words m) = 1024"
    and "\<forall>d. 0 \<le> fst (pl330_vfio_request_channel P d)"
    and "\<forall>a cfg m. \<exists>x. pl330_vfio_submit_req P a cfg m = (m\<lparr>ctl := x\<rparr>, False)"
    and "i < 1024" and "rnd i \<noteq> dst_words m ! i"
  shows "\<exists>s' pre ch. vfio_main_dma P ie irq rnd uninit m e argv s = Inr (0, s')
    \<and> out s' = pre @ transfer_text (map rnd [0..<1024]) (dst_words m) ch False (map rnd [0..<1024]) (dst_words m)
    \<and> failures (map rnd [0..<1024]) (dst_words m) \<noteq> ''''"
proof -
  have keeps: "keeps_windows P" unfolding keeps_windows_def
  proof (intro allI)
    fix a cfg m
    obtain x where "pl330_vfio_submit_req P a cfg m = (m\<lparr>ctl := x\<rparr>, False)" using assms(9) by blast
    then show "length (src_words (fst (pl330_vfio_submit_req P a cfg m))) = length (src_words m)
        \<and> length (dst_words (fst (pl330_vfio_submit_req P a cfg m))) = length (dst_words m)" by simp
  qed
  obtain s' pre d ch d' m4 called where ch: "pl330_vfio_request_channel P d = (ch, d')"
    and run: "vfio_main_dma P ie irq rnd uninit m e argv s = Inr (0, s')"
      "pl330_vfio_submit_req P 0x2000 (request P e uninit ch) (submitted P e rnd uninit m (ch, d')) = (m4, called)"
      "out s' = pre @ transfer_text (map rnd [0..<1024]) (dst_words m) ch called (src_words m4) (dst_words m4)"
    using vfio_main_dma_runs [OF assms(1-7) keeps, of rnd uninit] assms(8) by (metis fst_conv not_less)
  obtain x where "pl330_vfio_submit_req P 0x2000 (request P e uninit ch) (submitted P e rnd uninit m (ch, d'))
      = ((submitted P e rnd uninit m (ch, d'))\<lparr>ctl := x\<rparr>, False)" using assms(9) by blast
  then have "src_words m4 = map rnd [0..<1024]" "dst_words m4 = dst_words m" "\<not> called"
    using run(2) by (auto simp: submitted_def simp del: upt_rec_numeral)
  moreover have "failures (map rnd [0..<1024]) (dst_words m) \<noteq> ''''"
    using assms(10,11) by (intro failures_nonempty [of i]) (simp_all del: upt_rec_numeral)
  ultimately show ?thesis using run(1,3) by auto
qed

section \<open>Witnesses\<close>


end
