(* ===== verification/Helloworld.thy ===== *)
theory Helloworld
  imports Lifecycle
begin

text \<open>
  \<^verbatim>\<open>src/code/helloworld/helloworld.c\<close>: the smallest module of the repository, which says when it is loaded
  and when it is unloaded. It is the plainest instance of the module contract of \<open>Lifecycle\<close>.
\<close>

section \<open>The module\<close>

record hello = kernel +
  hello_log :: "string list"

definition lkm_init :: "unit \<Rightarrow> hello \<Rightarrow> crash + int \<times> hello" where
  "lkm_init _ s = Inr (0, s\<lparr>hello_log := hello_log s @ [''hello world!'']\<rparr>)"

definition lkm_exit :: "hello \<Rightarrow> crash + hello" where
  "lkm_exit s = Inr (s\<lparr>hello_log := hello_log s @ [''goodbye!'']\<rparr>)"

text \<open>The module has no entry points of its own.\<close>

abbreviation no_step :: "hello \<Rightarrow> hello \<Rightarrow> bool" where
  "no_step \<equiv> \<lambda>_ _. False"

section \<open>Lemmas\<close>

interpretation hw: kmodule "\<lambda>s. mset (held s)" "\<lambda>_ _. True" lkm_init no_step lkm_exit "\<lambda>base s. mset (held s) = base"
  by unfold_locales (auto simp: lkm_init_def lkm_exit_def)

lemma no_step_rtranclp: "no_step\<^sup>*\<^sup>* s s' \<Longrightarrow> s' = s"
  by (induction rule: rtranclp_induct) auto

text \<open>Every life of the module prints its two lines and nothing else, and any number of lives
  gives that many pairs.\<close>

lemma hello_life:
  "lifetime (\<lambda>_ _. True) lkm_init no_step lkm_exit s s' \<longleftrightarrow>
   s' = s\<lparr>hello_log := hello_log s @ [''hello world!'', ''goodbye!'']\<rparr>"
proof
  show "lifetime (\<lambda>_ _. True) lkm_init no_step lkm_exit s s' \<Longrightarrow>
      s' = s\<lparr>hello_log := hello_log s @ [''hello world!'', ''goodbye!'']\<rparr>"
    by (erule lifetime.cases) (auto simp: lkm_init_def lkm_exit_def dest: no_step_rtranclp)
next
  assume s': "s' = s\<lparr>hello_log := hello_log s @ [''hello world!'', ''goodbye!'']\<rparr>"
  obtain s1 where s1: "lkm_init () s = Inr (0, s1)" "hello_log s1 = hello_log s @ [''hello world!'']"
    by (simp add: lkm_init_def)
  with s' have "lkm_exit s1 = Inr s'" by (auto simp: lkm_init_def lkm_exit_def)
  with s1(1) show "lifetime (\<lambda>_ _. True) lkm_init no_step lkm_exit s s'"
    using life_ok [of "\<lambda>_ _. True" "()" s lkm_init s1 no_step s1 lkm_exit s'] by simp
qed

lemma hello_lives:
  "(lifetime (\<lambda>_ _. True) lkm_init no_step lkm_exit ^^ n) s s' \<longleftrightarrow>
   s' = s\<lparr>hello_log := hello_log s @ concat (replicate n [''hello world!'', ''goodbye!''])\<rparr>"
proof (induction n arbitrary: s')
  case (Suc n)
  have "concat (replicate n [''hello world!'', ''goodbye!'']) @ [''hello world!'', ''goodbye!'']
      = concat (replicate (Suc n) [''hello world!'', ''goodbye!''])"
    by (induction n) simp_all
  then show ?case using Suc.IH by (auto simp: relcompp.simps hello_life)
qed auto

end
