(* ===== verification/Spec2Isabelle.thy ===== *)
theory Spec2Isabelle
  imports Dram Listopt Taskmods Memmap Memlog Blkdev Cdev Mdev Monitor V2p Pcimem Irq Heartbeat Heartstatic Anamem Anarounds
    Fileview Fileterm Timesof Ns Container Vfio Vfiodma Helloworld
begin

text \<open>
  \<^bold>\<open>kernelStudy: a verification development.\<close> The repository is a collection of small Linux kernel modules and
  of user programs that use or examine them. The modules are independent of each other; each is loaded,
  called by the kernel through its file operations, timers or interrupts, and unloaded. Three groups interact:
  the viewer \<^verbatim>\<open>fileview\<close> reads physical memory through the \<^verbatim>\<open>dram\<close> driver, the programs \<^verbatim>\<open>my_read\<close> and
  \<^verbatim>\<open>my_write\<close> share memory through the \<^verbatim>\<open>memmap\<close> driver, and \<^verbatim>\<open>mycdev_user\<close> talks to the two message devices.

  \<^bold>\<open>How the code is modelled.\<close> A C function is a HOL function of the same name. Its state is a record that holds the
  module's static variables and, through the record \<open>kernel\<close> of \<open>Prelude\<close>, the list \<open>held\<close> of the kernel resources the
  module has acquired and not released. A function that can go wrong returns a sum type: \<open>Inl\<close> a value of
  \<open>crash\<close> (a null pointer, an access outside an object, a use after free, a release of something not held, a loop
  that does not end) or \<open>Inr\<close> the result. C integers are words of their width where a value can wrap or change its
  sign, with the conversions written out, and \<open>int\<close> or \<open>nat\<close> where it cannot. A \<^verbatim>\<open>for\<close> loop is a function of the loop
  counter, named after its function (\<open>init_pages\<close>, \<open>dump_loop\<close>); a loop whose end depends on what it reads
  or whose counter can wrap (list traversals, the request loop, the kernel thread, the page loops of the memmap exit function and of the register mapping) is a \<open>partial_function\<close> into \<open>option\<close>, so that it
  returns is part of what is proved. No fuel is used. What the kernel and the C library answer (addresses of
  allocations, results of registrations, clock readings, page table accessors, the block layer) is a parameter:
  an argument or a record of answers, with the laws the code relies on as a named predicate or as a locale.

  \<^bold>\<open>Shared theories.\<close>
  \<^item> \<open>Prelude\<close>: widths, errno values, \<open>crash\<close>, the resource ledger, byte buffers.
  \<^item> \<open>Cformat\<close>: the number formats of \<^verbatim>\<open>printf\<close>, the digit parser of \<^verbatim>\<open>strtoul\<close>, little-endian values; round trips.
  \<^item> \<open>Lifecycle\<close>: the locale \<open>kmodule\<close>, the contract of \<^verbatim>\<open>module_init\<close> and \<^verbatim>\<open>module_exit\<close>; its lemmas say that any number
    of lives of a module leaves the ledger as it was. Ten modules interpret it.
  \<^item> \<open>Klist\<close>: the interface of \<^verbatim>\<open>linux/list.h\<close> as the locale \<open>klist\<close>, the traversal loops over it, and the doubly linked
    heap as its instance.
  \<^item> \<open>Msgdev\<close>: the locale \<open>msgdev\<close> between the message devices and \<^verbatim>\<open>mycdev_user.c\<close>, and that program.

  \<^bold>\<open>Components.\<close>
  \<^item> \<open>Dram\<close> (\<^verbatim>\<open>code/dram/dram.c\<close>): \<open>my_read\<close> delivers the run of physical memory at the position, cut at the page end;
    \<open>my_llseek\<close> refines exact integer arithmetic for every 64-bit offset; a read can go past the device's end.
  \<^item> \<open>Fileview\<close> (\<^verbatim>\<open>tools/fileview/fileview.cpp\<close>): the whole session over the locale \<open>seekable\<close>, which the dram driver
    interprets. Every screen shows the 256 bytes of memory at its position; positions and lines stay in
    bounds; every key keeps the viewer's state well formed.
  \<^item> \<open>Fileterm\<close> (the same file): what the viewer prints where. The legend and the lines of the last turn are on the
    terminal after any number of turns; a long name wraps the column arithmetic.
  \<^item> \<open>Listopt\<close> (\<^verbatim>\<open>code/mylistopt/mylistopt.c\<close>): filling, printing, pruning and emptying a list while it is traversed, and the
    thread function with its termination.
  \<^item> \<open>Taskmods\<close> (\<^verbatim>\<open>code/myrmmod/myrmmod.c\<close>, \<^verbatim>\<open>code/task_struct/task_struct.c\<close>): walks over the kernel's own lists;
    the two builds of \<^verbatim>\<open>myrmmod\<close>, which take and drop references, undo each other.
  \<^item> \<open>Memmap\<close> (\<^verbatim>\<open>code/memmap/\<close>): the fault handler maps the right page of the area with a reference, for every accepted
    mapping; the writer's text reaches the reader; loading and unloading are inverse.
    \<open>Memlog\<close> adds the log lines and the sequence of calls of a process: the lines are in order and name the pages
    installed, and the references are counted.
  \<^item> \<open>Blkdev\<close> (\<^verbatim>\<open>code/mydev/blkdev/myblkdev.c\<close>): the request loop never returns with the call the code makes, so its
    work is stated pass by pass: over any request source the first \<open>n\<close> passes refine a reference server on a list of
    bytes; what a pass writes a later one reads back. The capacity announced at load time is served in full.
  \<^item> \<open>Cdev\<close>, \<open>Mdev\<close> (\<^verbatim>\<open>code/mydev/cdev/\<close>, \<^verbatim>\<open>code/mydev/mdev/\<close>): the two message devices, their error paths, and the user
    program on them.
  \<^item> \<open>Monitor\<close> (\<^verbatim>\<open>code/monitor/monitor.c\<close>): dumps are at least three seconds apart and never missing under load, once three
    seconds have passed; what a dump lists.
  \<^item> \<open>V2p\<close> (\<^verbatim>\<open>code/v2p_addr/v2p_addr.c\<close>): the walk agrees with the hardware's translation in the low 52 bits; at
    which level it stops for an unmapped address; what it makes of a large page.
  \<^item> \<open>Pcimem\<close> (\<^verbatim>\<open>code/pcimap/pcimem.c\<close>, \<^verbatim>\<open>code/pcimap/mmap_sync.c\<close>): the dump equals a flag-free description of it; a
    write changes exactly the last item.
  \<^item> \<open>Irq\<close> (\<^verbatim>\<open>code/irq/myirq.c\<close>): the handler and its tasklet as events in any order.
  \<^item> \<open>Heartbeat\<close> (\<^verbatim>\<open>code/timer/timer.c\<close>): the heart keeps beating; the race of unloading with a running callback.
    \<open>Heartstatic\<close> is the file's first version (\<^verbatim>\<open>VERSION 1\<close>), compared with the second by a simulation.
  \<^item> \<open>Anamem\<close> (\<^verbatim>\<open>code/ana_mem/anamem.c\<close>): the statistics reported are those of the cycle counts; what the mapping covers,
    and from which size on its loop does not end.
    \<open>Anarounds\<close> holds the two rounds behind \<^verbatim>\<open>while (0)\<close>.
  \<^item> \<open>Timesof\<close> (\<^verbatim>\<open>code/timestatic/timesof.c\<close>): the reported cost is exact; time values as a linear order.
  \<^item> \<open>Ns\<close> (\<^verbatim>\<open>code/namespace/test/ns_utsnts.c\<close>): parent and child as interleaving steps; the pipe orders them, and they do
    not deadlock; whether the shell ends is a parameter.
  \<^item> \<open>Container\<close> (\<^verbatim>\<open>code/namespace/test/ns.c\<close>): the two versions of the container program on the mount tables and host
    names of both sides; which mounts the shell finds, the one with a mount namespace is isolated from a
    host whose mounts do not propagate, the one that is compiled is not. What \<^verbatim>\<open>mount\<close>, \<^verbatim>\<open>clone\<close> and \<^verbatim>\<open>sethostname\<close> do to
    the two tables and names is written out; whether they succeed is a parameter.
  \<^item> \<open>Vfio\<close> (\<^verbatim>\<open>test/vfio_test/vfio_test.c\<close>): the sequence of VFIO calls, its checks and its effect on the device.
    \<open>Vfiodma\<close> is the program with \<^verbatim>\<open>DMA_DRIVER\<close> (and \<^verbatim>\<open>IRQ\<close>) switched on, over a parameter for the controller's
    library: the words that differ when the library returns are reported, and no others.
  \<^item> \<open>Helloworld\<close> (\<^verbatim>\<open>code/helloworld/helloworld.c\<close>): the lines of every life of the module.

  This theory holds the property that spans the modules: nine of them keep the ledger balanced, under the answers of
  the kernel their environment predicates admit; the loads that leak are stated beside each module.

  \<^bold>\<open>Bounds.\<close> The model is that of x86-64 with 4 KiB pages. Times are assumed below \<open>2 ^ 40\<close> seconds, the file of the
  viewer below \<open>16 ^ 13\<close> bytes (13 digits are what a line has room for), and a program's numbers are in the
  ranges its properties name.

  \<^bold>\<open>Not modelled.\<close> Log lines that carry no information of the state, locks that are only initialised, and the terminal settings of the viewer.
  Code that is switched off is modelled where it is a program of its own (\<open>Heartstatic\<close>, \<open>Anarounds\<close>, \<open>Vfiodma\<close>, half of
  \<open>Container\<close>); what is commented out is not. The functions of the pl330 library that \<open>Vfiodma\<close> calls are not in the
  repository and are parameters.
  Concurrency is modelled where the code has it (interrupts, timer callbacks, the two processes of \<open>Ns\<close>); file
  operations of one device are taken one at a time.
\<close>

section \<open>Properties that span components\<close>

text \<open>C12. Nine modules keep their ledger of kernel resources balanced: the physical memory device, the kernel
  list, the mappable area, the RAM disk, the two message devices, the load monitor, the page table walker and the
  heartbeat timer. Every load their environment predicate admits returns; if it fails everything is given
  back; if it succeeds then after any use the unload returns, gives everything back and releases nothing that is
  not held; so the ledger is unchanged after any number of lives. The predicates leave out the loads that
  do leak, release twice or crash: for the kernel list, \<^verbatim>\<open>kthread_create\<close> fails; for the RAM disk,
  \<^verbatim>\<open>register_blkdev\<close> or \<^verbatim>\<open>alloc_disk\<close> fails; for the character device, \<^verbatim>\<open>cdev_alloc\<close> fails; for both message devices and
  the mappable area, the unchecked \<^verbatim>\<open>vmalloc\<close> fails; for the timer, its unchecked allocation fails. The failing loads
  that are admitted are those of a registration made first, of the list's allocations, of the RAM disk's memory or queue, of
  \<^verbatim>\<open>cdev_add\<close>, of the monitor's symbol lookup, and of the walker's page. The interrupt module, which never
  frees its data, is not among the nine.\<close>

theorem modules_balanced:
  "balanced_module (\<lambda>s. mset (held s)) (\<lambda>_ _. True) dram_init dram_step dram_exit
   \<and> balanced_module (\<lambda>s. mset (held s)) (listopt_env_ok dl_list l) (mylistopt_init dl_ops l) listopt_step (mylistopt_exit dl_ops l)
   \<and> balanced_module (\<lambda>s. mset (held s)) (memmap_env_ok vp pa) (my_memmap_drv_init vp) (memmap_step vp) (my_memmap_drv_exit vp)
   \<and> balanced_module (\<lambda>s. mset (held s)) blk_env_ok my_init (blk_step Q) my_exit
   \<and> balanced_module (\<lambda>s. mset (held s)) cdev_env_ok mycdev_init cdev_step mycdev_exit
   \<and> balanced_module (\<lambda>s. mset (held s)) mdev_env_ok mymdev_init mdev_step mymdev_exit
   \<and> balanced_module (\<lambda>s. mset (held s)) (\<lambda>_ _. True) monitor_init (monitor_step show_addr) monitor_exit
   \<and> balanced_module (\<lambda>s. mset (held s)) v2p_env_ok (v2p_init pt) (\<lambda>_ _. False) v2p_exit
   \<and> balanced_module (\<lambda>s. mset (held s)) timer_env_ok mytimer_init timer_step mytimer_exit"
  by (intro conjI dram.module_balanced lo.module_balanced mm.module_balanced blk.module_balanced cdm.module_balanced
      mdm.module_balanced mon.module_balanced v2p.module_balanced hb.module_balanced)

section \<open>Witnesses\<close>

theorem modules_balanced_witness:
  "(\<exists>s. lifetime (\<lambda>_ _. True) dram_init dram_step dram_exit \<lparr>held = [], dram_size = 0\<rparr> s \<and> held s = [])
   \<and> (\<exists>s. lifetime (listopt_env_ok dl_list 8) (mylistopt_init dl_ops 8) listopt_step (mylistopt_exit dl_ops 8) lo_start s
        \<and> held s = [])
   \<and> (\<exists>s. lifetime (memmap_env_ok frame_of frame_address) (my_memmap_drv_init frame_of) (memmap_step frame_of)
        (my_memmap_drv_exit frame_of) memmap0 s \<and> held s = [])
   \<and> (\<exists>s. lifetime blk_env_ok my_init (blk_step turn_ops) my_exit ramdisk0 s \<and> held s = [])
   \<and> (\<exists>s. lifetime cdev_env_ok mycdev_init cdev_step mycdev_exit cdev0 s \<and> held s = [])
   \<and> (\<exists>s. lifetime mdev_env_ok mymdev_init mdev_step mymdev_exit mdev0 s \<and> held s = [])
   \<and> (\<exists>s. lifetime (\<lambda>_ _. True) monitor_init (monitor_step (\<lambda>_. ''f'')) monitor_exit monitor0 s \<and> held s = [])
   \<and> (\<exists>s. lifetime v2p_env_ok (v2p_init readme_tables) (\<lambda>_ _. False) v2p_exit v2p0 s \<and> held s = [])
   \<and> (\<exists>s. lifetime timer_env_ok mytimer_init timer_step mytimer_exit heartbeat0 s \<and> held s = [])"
proof -
  obtain sd so sa sb sc sm sl sv st where
    life: "lifetime (\<lambda>_ _. True) dram_init dram_step dram_exit \<lparr>held = [], dram_size = 0\<rparr> sd"
      "lifetime (listopt_env_ok dl_list 8) (mylistopt_init dl_ops 8) listopt_step (mylistopt_exit dl_ops 8) lo_start so"
      "lifetime (memmap_env_ok frame_of frame_address) (my_memmap_drv_init frame_of) (memmap_step frame_of)
        (my_memmap_drv_exit frame_of) memmap0 sa"
      "lifetime blk_env_ok my_init (blk_step turn_ops) my_exit ramdisk0 sb"
      "lifetime cdev_env_ok mycdev_init cdev_step mycdev_exit cdev0 sc"
      "lifetime mdev_env_ok mymdev_init mdev_step mymdev_exit mdev0 sm"
      "lifetime (\<lambda>_ _. True) monitor_init (monitor_step (\<lambda>_. ''f'')) monitor_exit monitor0 sl"
      "lifetime v2p_env_ok (v2p_init readme_tables) (\<lambda>_ _. False) v2p_exit v2p0 sv"
      "lifetime timer_env_ok mytimer_init timer_step mytimer_exit heartbeat0 st"
    using dram_lifetimes_runs listopt_lifetimes_runs memmap_lifetimes_runs blkdev_lifetimes_runs cdev_lifetimes_runs
      mdev_lifetimes_runs monitor_lifetimes_runs v2p_lifetimes_runs heartbeat_lifetimes_runs
    by (elim exE conjE) (rule that)
  obtain "mset (held sd) = {#}" "mset (held so) = {#}" "mset (held sa) = {#}" "mset (held sb) = {#}" "mset (held sc) = {#}"
      "mset (held sm) = {#}" "mset (held sl) = {#}" "mset (held sv) = {#}" "mset (held st) = {#}"
  proof
    note balanced = modules_balanced [of 8 frame_of frame_address turn_ops "\<lambda>_. ''f''" readme_tables]
    show "mset (held sd) = {#}" using balanced balanced_lifetime [where ledger = "\<lambda>s. mset (held s)", OF _ life(1)] by simp
    show "mset (held so) = {#}" using balanced balanced_lifetime [where ledger = "\<lambda>s. mset (held s)", OF _ life(2)] by (simp add: lo_start_def)
    show "mset (held sa) = {#}" using balanced balanced_lifetime [where ledger = "\<lambda>s. mset (held s)", OF _ life(3)] by (simp add: memmap0_def)
    show "mset (held sb) = {#}" using balanced balanced_lifetime [where ledger = "\<lambda>s. mset (held s)", OF _ life(4)] by (simp add: ramdisk0_def)
    show "mset (held sc) = {#}" using balanced balanced_lifetime [where ledger = "\<lambda>s. mset (held s)", OF _ life(5)] by (simp add: cdev0_def)
    show "mset (held sm) = {#}" using balanced balanced_lifetime [where ledger = "\<lambda>s. mset (held s)", OF _ life(6)] by (simp add: mdev0_def)
    show "mset (held sl) = {#}" using balanced balanced_lifetime [where ledger = "\<lambda>s. mset (held s)", OF _ life(7)] by (simp add: monitor0_def)
    show "mset (held sv) = {#}" using balanced balanced_lifetime [where ledger = "\<lambda>s. mset (held s)", OF _ life(8)] by (simp add: v2p0_def)
    show "mset (held st) = {#}" using balanced balanced_lifetime [where ledger = "\<lambda>s. mset (held s)", OF _ life(9)] by (simp add: heartbeat0_def)
  qed
  with life show ?thesis by (simp only: mset_zero_iff) blast
qed

end
